theory Spec2Isabelle
  imports Main "HOL-Library.Word"
begin

section \<open>The bulk sequence generator of crunch\_v6.py\<close>

text \<open>
  The development embeds \<^verbatim>\<open>linux/guides-tips/network/boredom/crunch_v6.py\<close>:
  the disk-space check with the text of its error, the chunk list, the worker function
  \<^verbatim>\<open>generate_chunk\<close>, the coordinator loop that copies chunk results into the memory
  mapping, the iterator of \<^verbatim>\<open>Pool.imap\<close> through which the loop gets them, the
  finalisation and \<^verbatim>\<open>cleanup_resources\<close>, and the exit code of the script.

  The module constants \<^verbatim>\<open>TOTAL_ENTRIES\<close>, \<^verbatim>\<open>ENTRY_LENGTH\<close> and \<^verbatim>\<open>CHUNK_SIZE\<close> are the
  fields of a record, so that statements can range over them. The digit count 8 inside
  \<^verbatim>\<open>generate_chunk\<close> is a literal of the source and stays a literal here.
\<close>

subsection \<open>Configuration, errors, environment, files\<close>

record config =
  TOTAL_ENTRIES :: nat
  ENTRY_LENGTH :: nat
  CHUNK_SIZE :: nat

definition shipped :: config where
  \<comment> \<open>the constants as the script sets them\<close>
  "shipped = \<lparr>TOTAL_ENTRIES = 100000000, ENTRY_LENGTH = 9, CHUNK_SIZE = 10000000\<rparr>"

type_synonym bytes = "char list"

text \<open>
  The exceptions that the modelled paths raise. \<open>IOError\<close> and \<open>RuntimeError\<close> carry the
  message they are raised with, as the source's exceptions carry nothing else. \<open>OSError\<close>
  is the failure of \<^verbatim>\<open>mkdir\<close>.
\<close>

datatype exn =
    OSError
  | IOError string
  | ValueError
  | IndexError
  | RuntimeError string
  | KeyboardInterrupt
  | UnboundLocalError

text \<open>
  What a run cannot decide by itself: whether creating the output directory fails, the
  free space that \<^verbatim>\<open>shutil.disk_usage\<close> reports, whether the shutdown event is set when
  the coordinator looks at the \<open>i\<close>-th result, and whether formatting batch \<open>k\<close> of chunk
  \<open>i\<close> raises inside the worker.
\<close>

record env =
  mkdir_fails :: bool
  disk_free :: nat
  signal_at :: "nat \<Rightarrow> bool"
  worker_fault :: "nat \<Rightarrow> nat \<Rightarrow> bool"

datatype io_event = Create nat | Write nat nat | Rename | Delete

text \<open>
  The part of the file system a run touches: the output directory, the temporary file
  and the output file (\<open>None\<close>: the path does not exist), and the file operations of the
  run in order.
\<close>

record world =
  dir_exists :: bool
  temp_file :: "bytes option"
  output_file :: "bytes option"
  trace :: "io_event list"

subsection \<open>Decimal strings\<close>

definition digit_char :: "nat \<Rightarrow> char" where
  "digit_char d = char_of (48 + d)"

text \<open>The decimal string of a non-negative integer, as \<^verbatim>\<open>str\<close> gives it.\<close>

function dec_str :: "nat \<Rightarrow> string" where
  "dec_str n =
     (if n < 10 then [digit_char n] else dec_str (n div 10) @ [digit_char (n mod 10)])"
  by pat_completeness auto
termination
  by (relation "measure id") auto

declare dec_str.simps [simp del]

subsection \<open>Utility functions\<close>

definition ensure_directory_exists :: "env \<Rightarrow> world \<Rightarrow> exn option \<times> world" where
  "ensure_directory_exists e w =
     (if \<not> dir_exists w
      then (if mkdir_fails e then (Some OSError, w) else (None, w\<lparr>dir_exists := True\<rparr>))
      else (None, w))"

text \<open>
  The text of \<^verbatim>\<open>f"{n / (1024 ** 3):.1f}"\<close> for a byte count \<open>n\<close>. Below \<open>2\<^sup>5\<^sup>3\<close> the
  quotient by \<open>2\<^sup>3\<^sup>0\<close> is exact in binary floating point, and the format rounds it to
  one decimal, a tie to the even digit (0.25 gives \<^verbatim>\<open>0.2\<close>, 0.75 gives \<^verbatim>\<open>0.8\<close>).
  \<open>gb_tenths n\<close> is that rounded value in tenths of a GB. Statements about the text keep
  \<open>n\<close> below \<open>2\<^sup>5\<^sup>3\<close>.
\<close>

definition gb_tenths :: "nat \<Rightarrow> nat" where
  "gb_tenths n =
     (let q = (n * 10) div 1073741824; r = (n * 10) mod 1073741824
      in if 2 * r < 1073741824 then q
         else if 1073741824 < 2 * r then q + 1
         else if even q then q else q + 1)"

definition format_gb :: "nat \<Rightarrow> string" where
  "format_gb n = dec_str (gb_tenths n div 10) @ ''.'' @ dec_str (gb_tenths n mod 10)"

definition error_msg :: "nat \<Rightarrow> nat \<Rightarrow> string" where
  \<comment> \<open>\<^verbatim>\<open>f"Insufficient space. Need {required_gb:.1f}GB, have {free_gb:.1f}GB"\<close>\<close>
  "error_msg required_bytes free =
     ''Insufficient space. Need '' @ format_gb required_bytes @ ''GB, have ''
       @ format_gb free @ ''GB''"

text \<open>\<^verbatim>\<open>check_disk_space\<close>: the exception it raises, if any, and the file system after it.\<close>

definition check_disk_space :: "env \<Rightarrow> nat \<Rightarrow> world \<Rightarrow> exn option \<times> world" where
  "check_disk_space e required_bytes w =
     (case ensure_directory_exists e w of
        (Some x, w') \<Rightarrow> (Some x, w')
      | (None, w') \<Rightarrow>
          if disk_free e < required_bytes
          then (Some (IOError (error_msg required_bytes (disk_free e))), w')
          else (None, w'))"

subsection \<open>Python's range and the chunk list\<close>

text \<open>\<^verbatim>\<open>range(i, stop, step)\<close> for a positive step; callers treat \<open>step = 0\<close>, where Python
  raises, before they call it.\<close>

function range_step :: "nat \<Rightarrow> nat \<Rightarrow> nat \<Rightarrow> nat list" where
  "range_step i stop step =
     (if step = 0 \<or> stop \<le> i then [] else i # range_step (i + step) stop step)"
  by pat_completeness auto
termination
  by (relation "measure (\<lambda>(i, stop, step). stop - i)") auto

declare range_step.simps [simp del]

text \<open>The list \<^verbatim>\<open>chunks\<close> of the job: the pairs \<open>(start, end)\<close>. The third component of
  the source's tuples, the shared flag, is handed to the worker separately.\<close>

definition chunks :: "config \<Rightarrow> (nat \<times> nat) list" where
  "chunks cfg =
     map (\<lambda>i. (i, min (i + CHUNK_SIZE cfg) (TOTAL_ENTRIES cfg)))
       (range_step 0 (TOTAL_ENTRIES cfg) (CHUNK_SIZE cfg))"

subsection \<open>The worker: generate\_chunk\<close>

definition astype_U8 :: "32 word \<Rightarrow> string" where
  \<comment> \<open>\<^verbatim>\<open>astype('U8')\<close>: the decimal string, cut to the 8 characters the item holds\<close>
  "astype_U8 v = take 8 (dec_str (unat v))"

definition zfill :: "string \<Rightarrow> nat \<Rightarrow> string" where
  "zfill s width = replicate (width - length s) (CHR ''0'') @ s"

definition format_record :: "32 word \<Rightarrow> bytes" where
  \<comment> \<open>one element of \<^verbatim>\<open>np.char.zfill(batch.astype('U8'), 8) + '\n'\<close>\<close>
  "format_record v = zfill (astype_U8 v) 8 @ [CHR 0x0A]"

definition format_batch :: "32 word list \<Rightarrow> bytes" where
  \<comment> \<open>\<^verbatim>\<open>''.join(formatted).encode('ascii')\<close>\<close>
  "format_batch batch = concat (map format_record batch)"

text \<open>
  What a worker does, in order: a read of the shared flag with the value read, a batch
  appended to the result with its number of records, an exception inside the
  \<^verbatim>\<open>try\<close> block.
\<close>

datatype wevent = ReadFlag bool | Emit nat | Raise

text \<open>
  The loop \<^verbatim>\<open>for i in range(0, len(numbers), batch_size)\<close>. \<open>flag r\<close> is the value of
  \<^verbatim>\<open>shutdown_flag.value\<close> at the \<open>r\<close>-th read of the call (read 0 is the one before the
  \<^verbatim>\<open>try\<close>), \<open>fault k\<close> tells whether batch \<open>k\<close> raises, and the pair threaded through is
  the \<^verbatim>\<open>bytearray\<close> built so far and the events so far.
\<close>

function batch_loop ::
  "(nat \<Rightarrow> bool) \<Rightarrow> (nat \<Rightarrow> bool) \<Rightarrow> 32 word list \<Rightarrow> nat \<Rightarrow> nat \<Rightarrow> nat \<Rightarrow>
     bytes \<times> wevent list \<Rightarrow> bytes option \<times> wevent list" where
  "batch_loop flag fault numbers batch_size i k (result, tr) =
     (if batch_size = 0 \<or> length numbers \<le> i then (Some result, tr)
      else if flag (Suc k) then (None, tr @ [ReadFlag True])
      else if fault k then (None, tr @ [ReadFlag False, Raise])
      else
        let batch = take batch_size (drop i numbers)
        in batch_loop flag fault numbers batch_size (i + batch_size) (Suc k)
             (result @ format_batch batch, tr @ [ReadFlag False, Emit (length batch)]))"
  by pat_completeness auto
termination
  by (relation "measure (\<lambda>(flag, fault, numbers, batch_size, i, k, acc). length numbers - i)")
    auto

declare batch_loop.simps [simp del]

text \<open>
  \<^verbatim>\<open>generate_chunk((start, end, shutdown_flag))\<close>; \<open>None\<close> is the source's \<^verbatim>\<open>None\<close>.
  The array is \<^verbatim>\<open>np.arange(start, end, dtype=np.uint32)\<close>: its elements are 32-bit
  words, and every statement below keeps the values under \<open>2\<^sup>3\<^sup>2\<close>, where
  \<open>word_of_nat\<close> changes nothing. For \<open>start = end\<close> the batch
  size is 0 and \<^verbatim>\<open>range\<close> raises \<^verbatim>\<open>ValueError\<close> inside the \<^verbatim>\<open>try\<close>; for \<open>end < start\<close>
  the batch size is negative, the loop body never runs and the empty buffer is returned.
\<close>

definition generate_chunk ::
  "(nat \<Rightarrow> bool) \<Rightarrow> (nat \<Rightarrow> bool) \<Rightarrow> nat \<times> nat \<Rightarrow> bytes option \<times> wevent list" where
  "generate_chunk flag fault args =
     (case args of (start, stop) \<Rightarrow>
        if flag 0 then (None, [ReadFlag True])
        else if start = stop then (None, [ReadFlag False, Raise])
        else if stop < start then (Some [], [ReadFlag False])
        else
          let numbers = map word_of_nat [start..<stop];
              batch_size = min 100000 (stop - start)
          in batch_loop flag fault numbers batch_size 0 0 ([], [ReadFlag False]))"

subsection \<open>The coordinator\<close>

text \<open>
  \<^verbatim>\<open>mm[start_pos:start_pos + len(result)] = result\<close> on an \<^verbatim>\<open>mmap\<close>: the slice bounds are
  clipped to the size of the mapping, and a slice whose length differs from the length
  of the data raises \<^verbatim>\<open>IndexError\<close>.
\<close>

definition mm_assign :: "bytes \<Rightarrow> nat \<Rightarrow> bytes \<Rightarrow> exn + bytes" where
  "mm_assign m start_pos data =
     (let lo = min start_pos (length m);
          hi = min (start_pos + length data) (length m)
      in if hi - lo \<noteq> length data then Inl IndexError
         else Inr (take lo m @ data @ drop hi m))"

text \<open>
  The state of the loop: the mapped bytes, the shared \<^verbatim>\<open>shutdown_flag\<close>, and the
  \<open>(start_pos, len(result))\<close> of every slice assignment so far.
\<close>

record loop_state =
  mm :: bytes
  shutdown_flag :: bool
  written :: "(nat \<times> nat) list"

text \<open>
  \<^verbatim>\<open>for i, result in enumerate(controller.pool.imap(generate_chunk, chunks))\<close>.
  \<^verbatim>\<open>imap\<close> hands the results over in the order of its input, so the \<open>i\<close>-th result is
  \<^verbatim>\<open>generate_chunk\<close> of the \<open>i\<close>-th chunk; the worker reads the flag of the loop state.
  The result is the exception that left the loop, if any, and the state.
\<close>

fun coordinator ::
  "config \<Rightarrow> env \<Rightarrow> (nat \<times> nat \<times> nat) list \<Rightarrow> loop_state \<Rightarrow> exn option \<times> loop_state" where
  "coordinator cfg e [] st = (None, st)"
| "coordinator cfg e ((i, c) # rest) st =
     (let result = fst (generate_chunk (\<lambda>r. shutdown_flag st) (worker_fault e i) c)
      in if signal_at e i then (Some KeyboardInterrupt, st\<lparr>shutdown_flag := True\<rparr>)
         else case result of
           None \<Rightarrow> (Some (RuntimeError ''Chunk generation failed''), st)
         | Some data \<Rightarrow>
             let start_pos = i * CHUNK_SIZE cfg * ENTRY_LENGTH cfg
             in case mm_assign (mm st) start_pos data of
                  Inl x \<Rightarrow> (Some x, st)
                | Inr m \<Rightarrow>
                    coordinator cfg e rest
                      (st\<lparr>mm := m, written := written st @ [(start_pos, length data)]\<rparr>))"

subsection \<open>The iterator of the pool\<close>

text \<open>
  The iterator that \<^verbatim>\<open>Pool.imap\<close> of the standard library returns (class
  \<^verbatim>\<open>IMapIterator\<close>), by which the loop above gets its results. The pool calls
  \<^verbatim>\<open>_set(i, obj)\<close> when some worker has finished task \<open>i\<close>, in whatever order the workers
  finish. \<^verbatim>\<open>_index\<close> is the number of the next task to hand over, a result that comes
  early waits in the dictionary \<^verbatim>\<open>_unsorted\<close>, and \<^verbatim>\<open>next\<close> takes the objects from
  \<^verbatim>\<open>_items\<close>, oldest first. The dictionary is a list of pairs with at most one pair for a
  key.
\<close>

record 'b imap_iterator =
  items :: "'b list"
  index :: nat
  unsorted :: "(nat \<times> 'b) list"

text \<open>\<^verbatim>\<open>while self._index in self._unsorted\<close>: pop the object and append it to the items.\<close>

function flush :: "'b imap_iterator \<Rightarrow> 'b imap_iterator" where
  "flush it =
     (case map_of (unsorted it) (index it) of
        None \<Rightarrow> it
      | Some obj \<Rightarrow>
          flush (it\<lparr>items := items it @ [obj], index := index it + 1,
                    unsorted := filter (\<lambda>p. fst p \<noteq> index it) (unsorted it)\<rparr>))"
  by pat_completeness auto
termination
proof (relation "measure (\<lambda>it. length (unsorted it))")
  show "wf (measure (\<lambda>it. length (unsorted it)))" by simp
next
  fix it :: "'b imap_iterator" and obj
  assume "map_of (unsorted it) (index it) = Some obj"
  then have "(index it, obj) \<in> set (unsorted it)" by (rule map_of_SomeD)
  then have "length (filter (\<lambda>p. fst p \<noteq> index it) (unsorted it)) < length (unsorted it)"
    using length_filter_less [of "(index it, obj)" "unsorted it" "\<lambda>p. fst p \<noteq> index it"]
    by simp
  then show "(it\<lparr>items := items it @ [obj], index := index it + 1,
                 unsorted := filter (\<lambda>p. fst p \<noteq> index it) (unsorted it)\<rparr>, it)
      \<in> measure (\<lambda>it. length (unsorted it))"
    by simp
qed

declare flush.simps [simp del]

definition imap_set :: "'b imap_iterator \<Rightarrow> nat \<Rightarrow> 'b \<Rightarrow> 'b imap_iterator" where
  \<comment> \<open>\<^verbatim>\<open>IMapIterator._set(i, obj)\<close>\<close>
  "imap_set it i obj =
     (if index it = i then flush (it\<lparr>items := items it @ [obj], index := index it + 1\<rparr>)
      else it\<lparr>unsorted := (i, obj) # filter (\<lambda>p. fst p \<noteq> i) (unsorted it)\<rparr>)"

text \<open>
  What the iterator has handed to \<^verbatim>\<open>_items\<close> after the completion events \<open>events\<close>. An
  event \<open>(worker, i)\<close> says that the worker of that number has finished task \<open>i\<close>; the
  object it delivers is \<open>func\<close> of the \<open>i\<close>-th task, whoever ran it.
\<close>

definition pool_imap :: "('a \<Rightarrow> 'b) \<Rightarrow> 'a list \<Rightarrow> (nat \<times> nat) list \<Rightarrow> 'b list" where
  "pool_imap func tasks events =
     items (foldl (\<lambda>it ev. imap_set it (snd ev) (func (tasks ! snd ev)))
              \<lparr>items = [], index = 0, unsorted = []\<rparr> events)"

text \<open>
  The events a pool can produce for \<open>n\<close> tasks: every event names one of the tasks, and
  no task finishes twice.
\<close>

definition completions :: "nat \<Rightarrow> (nat \<times> nat) list \<Rightarrow> bool" where
  "completions n events \<longleftrightarrow>
     distinct (map snd events) \<and> list_all (\<lambda>ev. snd ev < n) events"

text \<open>
  The task of the job: \<^verbatim>\<open>generate_chunk\<close> on the \<open>i\<close>-th chunk. A result that reaches the
  loop was computed while the flag was unset: the loop sets the flag only when it
  leaves.
\<close>

definition chunk_task :: "env \<Rightarrow> nat \<times> nat \<times> nat \<Rightarrow> bytes option" where
  "chunk_task e t =
     (case t of (i, c) \<Rightarrow> fst (generate_chunk (\<lambda>r. False) (worker_fault e i) c))"

text \<open>
  The body of the loop \<^verbatim>\<open>for i, result in enumerate(...)\<close> again, this time over the
  results as an iterator has handed them over.
\<close>

fun consume ::
  "config \<Rightarrow> env \<Rightarrow> (nat \<times> bytes option) list \<Rightarrow> loop_state \<Rightarrow> exn option \<times> loop_state" where
  "consume cfg e [] st = (None, st)"
| "consume cfg e ((i, result) # rest) st =
     (if signal_at e i then (Some KeyboardInterrupt, st\<lparr>shutdown_flag := True\<rparr>)
      else case result of
        None \<Rightarrow> (Some (RuntimeError ''Chunk generation failed''), st)
      | Some data \<Rightarrow>
          let start_pos = i * CHUNK_SIZE cfg * ENTRY_LENGTH cfg
          in case mm_assign (mm st) start_pos data of
               Inl x \<Rightarrow> (Some x, st)
             | Inr m \<Rightarrow>
                 consume cfg e rest
                   (st\<lparr>mm := m, written := written st @ [(start_pos, length data)]\<rparr>))"

subsection \<open>The job, its cleanup and the exit code\<close>

definition cleanup_resources :: "world \<Rightarrow> world" where
  \<comment> \<open>pool and manager hold no file; \<^verbatim>\<open>if temp_path.exists(): temp_path.unlink()\<close>\<close>
  "cleanup_resources w =
     (if temp_file w \<noteq> None then w\<lparr>temp_file := None, trace := trace w @ [Delete]\<rparr> else w)"

text \<open>
  \<^verbatim>\<open>generate_full_8digit_combinations\<close>. The result is \<open>Inr b\<close> when the function returns
  \<open>b\<close> and \<open>Inl x\<close> when an exception leaves it. When \<^verbatim>\<open>check_disk_space\<close> raises,
  \<^verbatim>\<open>temp_path\<close> has not been assigned, and the \<^verbatim>\<open>finally\<close> block, which passes it to
  \<^verbatim>\<open>cleanup_resources\<close>, raises \<^verbatim>\<open>UnboundLocalError\<close> in place of the \<^verbatim>\<open>return False\<close>.
  \<^verbatim>\<open>mmap\<close> refuses an empty file and \<^verbatim>\<open>range\<close> a zero step with \<^verbatim>\<open>ValueError\<close>. The
  mapping is shared with the file, so the temporary file holds the mapped bytes when
  the \<^verbatim>\<open>with\<close> block is left.
\<close>

definition generate_full_8digit_combinations ::
  "config \<Rightarrow> env \<Rightarrow> world \<Rightarrow> (exn + bool) \<times> world" where
  "generate_full_8digit_combinations cfg e w =
     (let file_size = TOTAL_ENTRIES cfg * ENTRY_LENGTH cfg
      in case check_disk_space e file_size w of
           (Some x, w1) \<Rightarrow> (Inl UnboundLocalError, w1)
         | (None, w1) \<Rightarrow>
             let w2 = w1\<lparr>temp_file := Some (replicate file_size (CHR 0x00)),
                         trace := trace w1 @ [Create file_size]\<rparr>
             in if file_size = 0 \<or> CHUNK_SIZE cfg = 0
                then (Inr False, cleanup_resources w2)
                else
                  case coordinator cfg e (enumerate 0 (chunks cfg))
                         \<lparr>mm = replicate file_size (CHR 0x00), shutdown_flag = False,
                          written = []\<rparr> of
                    (r, st) \<Rightarrow>
                      let w3 = w2\<lparr>temp_file := Some (mm st),
                                  trace := trace w2 @ map (\<lambda>(a, l). Write a l) (written st)\<rparr>
                      in case r of
                           Some x \<Rightarrow> (Inr False, cleanup_resources w3)
                         | None \<Rightarrow>
                             (Inr True,
                              cleanup_resources
                                (w3\<lparr>output_file := temp_file w3, temp_file := None,
                                    trace := trace w3 @ [Rename]\<rparr>)))"

definition main :: "config \<Rightarrow> env \<Rightarrow> world \<Rightarrow> nat \<times> world" where
  \<comment> \<open>\<^verbatim>\<open>sys.exit(0 if success else 1)\<close>, and \<^verbatim>\<open>sys.exit(1)\<close> for an exception\<close>
  "main cfg e w =
     (case generate_full_8digit_combinations cfg e w of
        (Inr success, w') \<Rightarrow> (if success then 0 else 1, w')
      | (Inl x, w') \<Rightarrow> (1, w'))"

subsection \<open>Notions the statements use\<close>

text \<open>The coordinator loop as the job starts it: the whole chunk list, a zero-filled
  mapping of the preallocated size, the flag unset.\<close>

definition job_loop_run :: "config \<Rightarrow> env \<Rightarrow> exn option \<times> loop_state" where
  "job_loop_run cfg e =
     coordinator cfg e (enumerate 0 (chunks cfg))
       \<lparr>mm = replicate (TOTAL_ENTRIES cfg * ENTRY_LENGTH cfg) (CHR 0x00), shutdown_flag = False,
        written = []\<rparr>"

text \<open>The same loop, fed by the pool's iterator after the completion events \<open>events\<close>.\<close>

definition job_loop_run_pool ::
  "config \<Rightarrow> env \<Rightarrow> (nat \<times> nat) list \<Rightarrow> exn option \<times> loop_state" where
  "job_loop_run_pool cfg e events =
     consume cfg e (enumerate 0 (pool_imap (chunk_task e) (enumerate 0 (chunks cfg)) events))
       \<lparr>mm = replicate (TOTAL_ENTRIES cfg * ENTRY_LENGTH cfg) (CHR 0x00), shutdown_flag = False,
        written = []\<rparr>"

text \<open>
  The invariant of the iterator. \<open>fin\<close> is the set of the tasks that have finished and
  \<open>g i\<close> the object of task \<open>i\<close>.
\<close>

definition imap_inv :: "(nat \<Rightarrow> 'b) \<Rightarrow> nat set \<Rightarrow> 'b imap_iterator \<Rightarrow> bool" where
  "imap_inv g fin it \<longleftrightarrow>
     items it = map g [0..<index it] \<and> (\<forall>i < index it. i \<in> fin)
     \<and> (\<forall>i. map_of (unsorted it) i = (if i \<in> fin \<and> index it \<le> i then Some (g i) else None))"

text \<open>The bytes \<open>m[a:b]\<close> of a mapping, for \<open>a \<le> b\<close>.\<close>

definition mm_slice :: "bytes \<Rightarrow> nat \<Rightarrow> nat \<Rightarrow> bytes" where
  "mm_slice m a b = take (b - a) (drop a m)"

text \<open>The number of batches a worker has appended to its result.\<close>

definition emitted :: "wevent list \<Rightarrow> nat" where
  "emitted tr = length (filter (\<lambda>x. case x of Emit n \<Rightarrow> True | _ \<Rightarrow> False) tr)"

text \<open>
  The events of a worker after its first read of the flag: every batch has at most
  100000 records and directly follows a read of the flag that gave false; a read that
  gives true, or an exception, is the last event.
\<close>

fun paced :: "wevent list \<Rightarrow> bool" where
  "paced [] = True"
| "paced (ReadFlag False # Emit n # tr) = (n \<le> 100000 \<and> paced tr)"
| "paced [ReadFlag True] = True"
| "paced [ReadFlag False, Raise] = True"
| "paced tr = False"

text \<open>
  The record of the specification for record width \<open>W\<close>: the decimal string of \<open>v\<close>
  padded with leading zeros to \<open>W - 1\<close> characters, then one newline byte. Decoding a
  file cuts it into records of \<open>W\<close> bytes and reads the first \<open>W - 1\<close> bytes of each as
  a decimal number.
\<close>

definition spec_record :: "nat \<Rightarrow> nat \<Rightarrow> bytes" where
  "spec_record W v = zfill (dec_str v) (W - 1) @ [CHR 0x0A]"

definition parse_dec :: "string \<Rightarrow> nat" where
  "parse_dec s = foldl (\<lambda>acc c. 10 * acc + (of_char c - 48)) 0 s"

function split_records :: "nat \<Rightarrow> bytes \<Rightarrow> bytes list" where
  "split_records W bs =
     (if W = 0 \<or> bs = [] then [] else take W bs # split_records W (drop W bs))"
  by pat_completeness auto
termination
  by (relation "measure (\<lambda>(W, bs). length bs)") auto

declare split_records.simps [simp del]

definition decode_file :: "nat \<Rightarrow> bytes \<Rightarrow> nat list" where
  "decode_file W bs = map (\<lambda>r. parse_dec (take (W - 1) r)) (split_records W bs)"

subsection \<open>Concrete configurations and environments\<close>

definition cfg20 :: config where
  "cfg20 = \<lparr>TOTAL_ENTRIES = 20, ENTRY_LENGTH = 9, CHUNK_SIZE = 6\<rparr>"

definition quiet :: env where
  \<comment> \<open>enough space, no signal, no fault\<close>
  "quiet = \<lparr>mkdir_fails = False, disk_free = 1000000000, signal_at = (\<lambda>i. False),
             worker_fault = (\<lambda>i k. False)\<rparr>"

definition flag_unset :: "nat \<Rightarrow> bool" where
  \<comment> \<open>the shared flag as a worker reads it while nobody has set it\<close>
  "flag_unset r = False"

definition fresh :: world where
  \<comment> \<open>the directory exists, neither file does\<close>
  "fresh = \<lparr>dir_exists = True, temp_file = None, output_file = None, trace = []\<rparr>"

definition cfg_one :: config where
  "cfg_one = \<lparr>TOTAL_ENTRIES = 1, ENTRY_LENGTH = 9, CHUNK_SIZE = 1\<rparr>"

definition cfg_w10 :: config where
  \<comment> \<open>records of 10 bytes: 9 digits and the newline\<close>
  "cfg_w10 = \<lparr>TOTAL_ENTRIES = 1, ENTRY_LENGTH = 10, CHUNK_SIZE = 1\<rparr>"

definition cfg_w5 :: config where
  \<comment> \<open>records of 5 bytes: 4 digits and the newline\<close>
  "cfg_w5 = \<lparr>TOTAL_ENTRIES = 1, ENTRY_LENGTH = 5, CHUNK_SIZE = 1\<rparr>"


definition interrupted :: env where
  \<comment> \<open>the shutdown event is set when the first result arrives\<close>
  "interrupted = quiet\<lparr>signal_at := (\<lambda>i. True)\<rparr>"

definition faulty :: env where
  \<comment> \<open>every worker raises in its first batch\<close>
  "faulty = quiet\<lparr>worker_fault := (\<lambda>i k. True)\<rparr>"

definition no_space :: env where
  "no_space = quiet\<lparr>disk_free := 0\<rparr>"

definition stale :: world where
  \<comment> \<open>as \<open>fresh\<close>, with an output file of an earlier run in place\<close>
  "stale = fresh\<lparr>output_file := Some ''old''\<rparr>"

definition leftover :: world where
  \<comment> \<open>as \<open>fresh\<close>, with the temporary file of an earlier run that was killed\<close>
  "leftover = fresh\<lparr>temp_file := Some ''00000000''\<rparr>"

definition tight :: env where
  \<comment> \<open>five free bytes\<close>
  "tight = quiet\<lparr>disk_free := 5\<rparr>"

definition half_full :: env where
  \<comment> \<open>500 MB free, where the shipped constants need 900 MB\<close>
  "half_full = quiet\<lparr>disk_free := 500000000\<rparr>"

definition cfg_w5x3 :: config where
  \<comment> \<open>three records of 5 bytes, one per chunk\<close>
  "cfg_w5x3 = \<lparr>TOTAL_ENTRIES = 3, ENTRY_LENGTH = 5, CHUNK_SIZE = 1\<rparr>"

definition out_of_order :: "(nat \<times> nat) list" where
  \<comment> \<open>four tasks on three workers: task 2 finishes first, task 0 third\<close>
  "out_of_order = [(1, 2), (2, 1), (0, 0), (0, 3)]"

section \<open>Verification\<close>

subsection \<open>The chunk list in closed form\<close>

lemma ceil_step:
  assumes "0 < c" "i < n"
  shows "(n - i + c - 1) div c = Suc ((n - (i + c) + c - 1) div c)"
proof (cases "i + c \<le> n")
  case True
  define m where "m = n - (i + c) + c - 1"
  have "n - i + c - 1 = m + c" unfolding m_def using assms True by linarith
  then have "(n - i + c - 1) div c = (m + c) div c" by (rule arg_cong)
  also have "\<dots> = Suc (m div c)" using assms(1) div_add_self2 [of c m] by simp
  finally show ?thesis unfolding m_def .
next
  case False
  define m where "m = n - i + c - 1"
  have a: "n - (i + c) + c - 1 = c - 1" using False by linarith
  have b: "c * 1 \<le> m" unfolding m_def using assms by linarith
  have c: "m < c * Suc 1" unfolding m_def using assms False by simp
  have "m div c = 1" using b c by (rule div_nat_eqI)
  then show ?thesis unfolding a m_def using assms(1) by simp
qed

lemma range_step_closed:
  "0 < c \<Longrightarrow> range_step i n c = map (\<lambda>j. i + j * c) [0..<(n - i + c - 1) div c]"
proof (induction i n c rule: range_step.induct)
  case (1 i stop step)
  show ?case
  proof (cases "stop \<le> i")
    case True
    then show ?thesis using "1.prems" by (simp add: range_step.simps [of i])
  next
    case False
    then have lt: "i < stop" by simp
    have ih: "range_step (i + step) stop step =
        map (\<lambda>j. i + step + j * step) [0..<(stop - (i + step) + step - 1) div step]"
      using "1.IH" "1.prems" False by simp
    show ?thesis
      unfolding ceil_step [OF "1.prems" lt]
      using "1.prems" False
      apply (subst range_step.simps)
      apply (simp add: ih upt_conv_Cons del: upt_Suc)
      apply (simp add: map_Suc_upt [symmetric] del: upt_Suc)
      done
  qed
qed

lemma chunks_closed:
  assumes "0 < CHUNK_SIZE cfg"
  shows "chunks cfg =
    map (\<lambda>i. (i * CHUNK_SIZE cfg, min ((i + 1) * CHUNK_SIZE cfg) (TOTAL_ENTRIES cfg)))
      [0..<(TOTAL_ENTRIES cfg + CHUNK_SIZE cfg - 1) div CHUNK_SIZE cfg]"
  unfolding chunks_def range_step_closed [OF assms] by (simp add: o_def add.commute)

lemma below_ceil:
  assumes "i < (n + c - 1) div c" "0 < (n::nat)"
  shows "i * c < n"
proof -
  have "Suc i \<le> (n + c - 1) div c" using assms(1) by simp
  then have "Suc i * c \<le> ((n + c - 1) div c) * c" by (rule mult_le_mono1)
  also have "\<dots> \<le> n + c - 1" by simp
  finally show ?thesis using assms(2) by simp
qed

lemma div_below_ceil:
  assumes "x < n" "0 < (c::nat)"
  shows "x div c < (n + c - 1) div c"
proof -
  have "x + c \<le> n + c - 1" using assms by linarith
  then have "(x + c) div c \<le> (n + c - 1) div c" by (rule div_le_mono)
  moreover have "(x + c) div c = Suc (x div c)"
    using assms(2) div_add_self2 [of c x] by simp
  ultimately show ?thesis by simp
qed

text \<open>
  C2. For every \<open>N > 0\<close> and \<open>C > 0\<close> the chunk list is exactly
  \<open>[i * C, min ((i + 1) * C) N)\<close> for \<open>i = 0, \<dots>, ceil (N / C) - 1\<close> in ascending order of
  \<open>i\<close>; no chunk is empty, every chunk has length at most \<open>C\<close>, the chunks are pairwise
  disjoint, and their union is exactly \<open>[0, N)\<close>.
\<close>

theorem chunks_partition:
  assumes "0 < TOTAL_ENTRIES cfg" and "0 < CHUNK_SIZE cfg"
  shows "chunks cfg =
      map (\<lambda>i. (i * CHUNK_SIZE cfg, min ((i + 1) * CHUNK_SIZE cfg) (TOTAL_ENTRIES cfg)))
        [0..<(TOTAL_ENTRIES cfg + CHUNK_SIZE cfg - 1) div CHUNK_SIZE cfg]
    \<and> (\<forall>c \<in> set (chunks cfg). fst c < snd c \<and> snd c - fst c \<le> CHUNK_SIZE cfg)
    \<and> (\<forall>i j. i < j \<and> j < length (chunks cfg) \<longrightarrow>
          {fst (chunks cfg ! i)..<snd (chunks cfg ! i)} \<inter>
          {fst (chunks cfg ! j)..<snd (chunks cfg ! j)} = {})
    \<and> (\<Union>c \<in> set (chunks cfg). {fst c..<snd c}) = {0..<TOTAL_ENTRIES cfg}"
proof -
  define N where "N = TOTAL_ENTRIES cfg"
  define C where "C = CHUNK_SIZE cfg"
  define k where "k = (N + C - 1) div C"
  have N: "0 < N" and C: "0 < C" using assms by (simp_all add: N_def C_def)
  have closed: "chunks cfg = map (\<lambda>i. (i * C, min ((i + 1) * C) N)) [0..<k]"
    unfolding N_def C_def k_def by (rule chunks_closed [OF assms(2)])
  have len: "length (chunks cfg) = k" by (simp add: closed)
  have nth: "chunks cfg ! i = (i * C, min ((i + 1) * C) N)" if "i < k" for i
    using that by (simp add: closed)
  have start: "i * C < N" if "i < k" for i
    using that N unfolding k_def by (rule below_ceil)
  have shape: "fst c < snd c \<and> snd c - fst c \<le> C" if "c \<in> set (chunks cfg)" for c
  proof -
    from that obtain i where i: "i < k" and c: "c = (i * C, min ((i + 1) * C) N)"
      by (auto simp: closed)
    show ?thesis using start [OF i] C by (simp add: c)
  qed
  have disj: "{fst (chunks cfg ! i)..<snd (chunks cfg ! i)} \<inter>
      {fst (chunks cfg ! j)..<snd (chunks cfg ! j)} = {}" if "i < j" "j < length (chunks cfg)" for i j
  proof -
    have j: "j < k" and i: "i < k" using that len by simp_all
    have "Suc i * C \<le> j * C" using that(1) by (intro mult_le_mono1) simp
    then have "min ((i + 1) * C) N \<le> j * C" by simp
    then show ?thesis by (auto simp: nth [OF i] nth [OF j])
  qed
  have union: "(\<Union>c \<in> set (chunks cfg). {fst c..<snd c}) = {0..<N}"
  proof (intro equalityI subsetI)
    fix x assume "x \<in> (\<Union>c \<in> set (chunks cfg). {fst c..<snd c})"
    then show "x \<in> {0..<N}" by (auto simp: closed)
  next
    fix x assume "x \<in> {0..<N}"
    then have x: "x < N" by simp
    have i: "x div C < k" unfolding k_def using x C by (rule div_below_ceil)
    have lo: "(x div C) * C \<le> x" by simp
    have hi: "x < (x div C + 1) * C" using C by (simp add: dividend_less_div_times)
    have "chunks cfg ! (x div C) \<in> set (chunks cfg)" using i len by simp
    moreover have "x \<in> {fst (chunks cfg ! (x div C))..<snd (chunks cfg ! (x div C))}"
      using lo hi x by (simp add: nth [OF i])
    ultimately show "x \<in> (\<Union>c \<in> set (chunks cfg). {fst c..<snd c})" by blast
  qed
  show ?thesis
    using closed shape disj union unfolding N_def C_def k_def by blast
qed

theorem chunks_partition_witness:
  "0 < TOTAL_ENTRIES cfg20 \<and> 0 < CHUNK_SIZE cfg20
   \<and> chunks cfg20 = [(0, 6), (6, 12), (12, 18), (18, 20)]
   \<and> (\<Union>c \<in> set (chunks cfg20). {fst c..<snd c}) = {0..<TOTAL_ENTRIES cfg20}"
proof -
  have h1: "0 < TOTAL_ENTRIES cfg20" and h2: "0 < CHUNK_SIZE cfg20"
    by (simp_all add: cfg20_def)
  have c: "chunks cfg20 = [(0, 6), (6, 12), (12, 18), (18, 20)]" by code_simp
  have u: "(\<Union>c \<in> set (chunks cfg20). {fst c..<snd c}) = {0..<TOTAL_ENTRIES cfg20}"
    using chunks_partition [OF h1 h2] by blast
  show ?thesis using h1 h2 c u by blast
qed

subsection \<open>Records and batches\<close>

lemma digit_char_simps:
  "digit_char 0 = CHR 0x30" "digit_char (Suc 0) = CHR 0x31" "digit_char 1 = CHR 0x31"
  "digit_char 2 = CHR 0x32" "digit_char 3 = CHR 0x33" "digit_char 4 = CHR 0x34"
  "digit_char 5 = CHR 0x35" "digit_char 6 = CHR 0x36" "digit_char 7 = CHR 0x37"
  "digit_char 8 = CHR 0x38" "digit_char 9 = CHR 0x39"
  by (code_simp+)

lemma replicate_numeral: "replicate (numeral k) x = x # replicate (pred_numeral k) x"
  by (simp add: numeral_eq_Suc)

lemma length_format_record: "length (format_record v) = 9"
  by (simp add: format_record_def zfill_def astype_U8_def)

lemma length_format_batch: "length (format_batch xs) = 9 * length xs"
  by (induction xs) (simp_all add: format_batch_def length_format_record)

lemma format_batch_Nil: "format_batch [] = []"
  by (simp add: format_batch_def)

lemma format_batch_append: "format_batch (xs @ ys) = format_batch xs @ format_batch ys"
  by (simp add: format_batch_def)

lemma format_batch_take_drop:
  "format_batch (take n xs) @ format_batch (drop n xs) = format_batch xs"
  by (simp add: format_batch_append [symmetric])

lemma length_dec_str: "0 < k \<Longrightarrow> v < 10 ^ k \<Longrightarrow> length (dec_str v) \<le> k"
proof (induction k arbitrary: v)
  case 0
  then show ?case by simp
next
  case (Suc k)
  show ?case
  proof (cases "v < 10")
    case True
    then show ?thesis by (simp add: dec_str.simps [of v])
  next
    case False
    then have k: "0 < k" using Suc.prems by (cases k) simp_all
    have "v div 10 < 10 ^ k" using Suc.prems by (simp add: less_mult_imp_div_less mult.commute)
    then have "length (dec_str (v div 10)) \<le> k" using Suc.IH k by simp
    then show ?thesis using False by (simp add: dec_str.simps [of v])
  qed
qed

lemma unat_uint32: "v < 2 ^ 32 \<Longrightarrow> unat (word_of_nat v :: 32 word) = v"
  by (simp add: unat_of_nat)

lemma astype_exact: "v < 10 ^ 8 \<Longrightarrow> astype_U8 (word_of_nat v) = dec_str v"
proof -
  assume v: "v < 10 ^ 8"
  then have "v < 2 ^ 32" by simp
  then have "unat (word_of_nat v :: 32 word) = v" by (rule unat_uint32)
  moreover have "length (dec_str v) \<le> 8" using v by (intro length_dec_str) simp_all
  ultimately show ?thesis by (simp add: astype_U8_def)
qed

lemma format_batch_exact:
  "stop \<le> 10 ^ 8 \<Longrightarrow>
   format_batch (map word_of_nat [start..<stop]) = concat (map (spec_record 9) [start..<stop])"
  unfolding format_batch_def map_map
  by (intro arg_cong [where f = concat] map_cong)
    (simp_all add: spec_record_def format_record_def astype_exact)

subsection \<open>The batch loop\<close>

lemma batch_loop_result:
  "0 < batch_size \<Longrightarrow>
   fst (batch_loop flag fault numbers batch_size i k (result, tr)) = Some data \<Longrightarrow>
   data = result @ format_batch (drop i numbers)"
proof (induction flag fault numbers batch_size i k "(result, tr)" arbitrary: result tr
    rule: batch_loop.induct)
  case (1 flag fault numbers batch_size i k result tr)
  show ?case
  proof (cases "length numbers \<le> i")
    case True
    then show ?thesis
      using "1.prems" by (simp add: batch_loop.simps [of _ _ _ _ i] format_batch_Nil)
  next
    case False
    have live: "\<not> flag (Suc k)" "\<not> fault k"
      using "1.prems" False by (auto simp: batch_loop.simps [of _ _ _ _ i] split: if_splits)
    have "data = (result @ format_batch (take batch_size (drop i numbers)))
        @ format_batch (drop (i + batch_size) numbers)"
      using "1.prems" False live
      by (intro "1.hyps") (simp_all add: batch_loop.simps [of _ _ _ _ i])
    then show ?thesis
      by (simp add: format_batch_take_drop add.commute flip: drop_drop)
  qed
qed

lemma batch_loop_runs:
  "0 < batch_size \<Longrightarrow> \<forall>r. \<not> flag r \<Longrightarrow> \<forall>k. \<not> fault k \<Longrightarrow>
   fst (batch_loop flag fault numbers batch_size i k (result, tr)) \<noteq> None"
proof (induction flag fault numbers batch_size i k "(result, tr)" arbitrary: result tr
    rule: batch_loop.induct)
  case (1 flag fault numbers batch_size i k result tr)
  show ?case
  proof (cases "length numbers \<le> i")
    case True
    then show ?thesis by (simp add: batch_loop.simps [of _ _ _ _ i])
  next
    case False
    then show ?thesis
      using "1.prems" "1.hyps" by (simp add: batch_loop.simps [of _ _ _ _ i])
  qed
qed

lemma generate_chunk_result:
  assumes "start < stop" "fst (generate_chunk flag fault (start, stop)) = Some data"
  shows "data = format_batch (map word_of_nat [start..<stop])"
proof -
  have "fst (batch_loop flag fault (map word_of_nat [start..<stop]) (min 100000 (stop - start)) 0 0
      ([], [ReadFlag False])) = Some data"
    using assms by (simp add: generate_chunk_def split: if_splits)
  then have "data = [] @ format_batch (drop 0 (map word_of_nat [start..<stop]))"
    using assms(1) by (intro batch_loop_result) simp_all
  then show ?thesis by simp
qed

lemma generate_chunk_length:
  assumes "fst (generate_chunk flag fault (start, stop)) = Some data"
  shows "length data = 9 * (stop - start)"
proof (cases "start < stop")
  case True
  then show ?thesis using generate_chunk_result [OF True assms] by (simp add: length_format_batch)
next
  case False
  then show ?thesis using assms by (auto simp: generate_chunk_def split: if_splits)
qed

lemma generate_chunk_runs:
  assumes "start < stop" "\<forall>r. \<not> flag r" "\<forall>k. \<not> fault k"
  shows "fst (generate_chunk flag fault (start, stop)) =
    Some (format_batch (map word_of_nat [start..<stop]))"
proof -
  have "fst (generate_chunk flag fault (start, stop)) \<noteq> None"
    using assms batch_loop_runs [of "min 100000 (stop - start)" flag fault]
    by (simp add: generate_chunk_def)
  then obtain data where "fst (generate_chunk flag fault (start, stop)) = Some data" by blast
  then show ?thesis using generate_chunk_result [OF assms(1)] by simp
qed

lemma nth_record:
  "\<forall>x \<in> set xs. length (f x) = n \<Longrightarrow> j < length xs \<Longrightarrow>
   take n (drop (n * j) (concat (map f xs))) = f (xs ! j)"
proof (induction xs arbitrary: j)
  case Nil
  then show ?case by simp
next
  case (Cons x xs)
  show ?case
  proof (cases j)
    case 0
    then show ?thesis using Cons.prems by simp
  next
    case (Suc j')
    have "n * j = length (f x) + n * j'" using Cons.prems Suc by simp
    then show ?thesis using Cons.prems Suc Cons.IH [of j'] by simp
  qed
qed

lemma length_spec_record: "v < 10 ^ 8 \<Longrightarrow> length (spec_record 9 v) = 9"
  using length_dec_str [of 8 v] by (simp add: spec_record_def zfill_def)


subsection \<open>The events of a worker\<close>

lemma length_range_step_Suc:
  "0 < step \<Longrightarrow> i < stop \<Longrightarrow>
   length (range_step i stop step) = Suc (length (range_step (i + step) stop step))"
  by (subst range_step.simps) simp

lemma batch_loop_trace:
  assumes "0 < batch_size" "batch_size \<le> 100000"
  shows "\<exists>tl. snd (batch_loop flag fault numbers batch_size i k (result, tr)) = tr @ tl
      \<and> paced tl
      \<and> (\<forall>r. flag r \<and> k < r \<and> r \<le> k + length (range_step i (length numbers) batch_size)
            \<longrightarrow> fst (batch_loop flag fault numbers batch_size i k (result, tr)) = None
              \<and> emitted tl \<le> r - 1 - k)"
  using assms
proof (induction flag fault numbers batch_size i k "(result, tr)" arbitrary: result tr
    rule: batch_loop.induct)
  case (1 flag fault numbers batch_size i k result tr)
  note bs = "1.prems"
  show ?case
  proof (cases "length numbers \<le> i")
    case True
    have "range_step i (length numbers) batch_size = []"
      using True by (simp add: range_step.simps [of i])
    then show ?thesis using True by (simp add: batch_loop.simps [of _ _ _ _ i])
  next
    case False
    show ?thesis
    proof (cases "flag (Suc k)")
      case True
      have "snd (batch_loop flag fault numbers batch_size i k (result, tr)) = tr @ [ReadFlag True]"
        and "fst (batch_loop flag fault numbers batch_size i k (result, tr)) = None"
        using False True bs by (simp_all add: batch_loop.simps [of _ _ _ _ i])
      then show ?thesis by (simp add: emitted_def)
    next
      case nf: False
      show ?thesis
      proof (cases "fault k")
        case True
        have "snd (batch_loop flag fault numbers batch_size i k (result, tr))
            = tr @ [ReadFlag False, Raise]"
          and "fst (batch_loop flag fault numbers batch_size i k (result, tr)) = None"
          using False True nf bs by (simp_all add: batch_loop.simps [of _ _ _ _ i])
        then show ?thesis by (simp add: emitted_def)
      next
        case nof: False
        define batch where "batch = take batch_size (drop i numbers)"
        define result' where "result' = result @ format_batch batch"
        define tr' where "tr' = tr @ [ReadFlag False, Emit (length batch)]"
        have step: "batch_loop flag fault numbers batch_size i k (result, tr)
            = batch_loop flag fault numbers batch_size (i + batch_size) (Suc k) (result', tr')"
          using False nf nof bs
          by (simp add: batch_loop.simps [of _ _ _ _ i] batch_def result'_def tr'_def)
        have "\<exists>tl. snd (batch_loop flag fault numbers batch_size (i + batch_size) (Suc k)
              (result', tr')) = tr' @ tl
            \<and> paced tl
            \<and> (\<forall>r. flag r \<and> Suc k < r
                  \<and> r \<le> Suc k + length (range_step (i + batch_size) (length numbers) batch_size)
                \<longrightarrow> fst (batch_loop flag fault numbers batch_size (i + batch_size) (Suc k)
                      (result', tr')) = None
                  \<and> emitted tl \<le> r - 1 - Suc k)"
          unfolding batch_def result'_def tr'_def
          using False nf nof bs by (intro "1.hyps") simp_all
        then obtain tl where tl: "snd (batch_loop flag fault numbers batch_size (i + batch_size) (Suc k)
              (result', tr')) = tr' @ tl" "paced tl"
          and canc: "\<And>r. flag r \<Longrightarrow> Suc k < r \<Longrightarrow>
              r \<le> Suc k + length (range_step (i + batch_size) (length numbers) batch_size) \<Longrightarrow>
              fst (batch_loop flag fault numbers batch_size (i + batch_size) (Suc k)
                (result', tr')) = None \<and> emitted tl \<le> r - 1 - Suc k"
          by blast
        have len: "length (range_step i (length numbers) batch_size)
            = Suc (length (range_step (i + batch_size) (length numbers) batch_size))"
          using bs(1) False by (intro length_range_step_Suc) simp_all
        have small: "length batch \<le> 100000" using bs(2) by (simp add: batch_def)
        have a: "snd (batch_loop flag fault numbers batch_size i k (result, tr))
            = tr @ (ReadFlag False # Emit (length batch) # tl)"
          unfolding step tl by (simp add: tr'_def)
        have b: "paced (ReadFlag False # Emit (length batch) # tl)"
          using small tl(2) by simp
        have c: "fst (batch_loop flag fault numbers batch_size i k (result, tr)) = None
            \<and> emitted (ReadFlag False # Emit (length batch) # tl) \<le> r - 1 - k"
          if r: "flag r" "k < r" "r \<le> k + length (range_step i (length numbers) batch_size)" for r
        proof -
          have "r \<noteq> Suc k" using r(1) nf by blast
          then have gt: "Suc k < r" using r(2) by simp
          have le: "r \<le> Suc k + length (range_step (i + batch_size) (length numbers) batch_size)"
            using r(3) len by simp
          have "emitted (ReadFlag False # Emit (length batch) # tl) = Suc (emitted tl)"
            by (simp add: emitted_def)
          moreover have "emitted tl \<le> r - 1 - Suc k"
            and "fst (batch_loop flag fault numbers batch_size i k (result, tr)) = None"
            using canc [OF r(1) gt le] by (simp_all add: step)
          ultimately show ?thesis using gt by linarith
        qed
        show ?thesis using a b c by blast
      qed
    qed
  qed
qed


subsection \<open>C3 and C9: what a worker returns and when it looks at the flag\<close>

text \<open>
  C3. For every chunk \<open>[start, stop)\<close> with \<open>start < stop\<close> whose values fit in 8 digits
  (the record width of the code is \<open>W = 9\<close>), a call of \<^verbatim>\<open>generate_chunk\<close> that reads the
  flag as false every time and meets no fault returns a buffer of exactly
  \<open>(stop - start) * 9\<close> bytes: the records of \<open>start, \<dots>, stop - 1\<close> in ascending order,
  the \<open>j\<close>-th record being the decimal string of \<open>start + j\<close> padded with leading zeros
  to exactly 8 characters and followed by one newline byte. The chunk holding only 42 is
  returned as \<open>00000042\<close> and a newline.
\<close>

theorem generate_chunk_encoding:
  assumes "start < stop" and "stop \<le> 10 ^ 8" and "\<forall>r. \<not> flag r" and "\<forall>k. \<not> fault k"
  shows "\<exists>buf. fst (generate_chunk flag fault (start, stop)) = Some buf
      \<and> length buf = (stop - start) * 9
      \<and> buf = concat (map (spec_record 9) [start..<stop])
      \<and> (\<forall>j < stop - start.
            take 9 (drop (9 * j) buf) = zfill (dec_str (start + j)) 8 @ [CHR 0x0A]
            \<and> length (zfill (dec_str (start + j)) 8) = 8)
      \<and> fst (generate_chunk (\<lambda>r. False) (\<lambda>k. False) (42, 43)) = Some (''00000042'' @ [CHR 0x0A])"
proof -
  define buf where "buf = concat (map (spec_record 9) [start..<stop])"
  have ret: "fst (generate_chunk flag fault (start, stop)) = Some buf"
    unfolding buf_def
    using generate_chunk_runs [OF assms(1,3,4)] format_batch_exact [OF assms(2)] by simp
  have len: "length buf = (stop - start) * 9"
    using generate_chunk_length [OF ret] by simp
  have fits: "v < 10 ^ 8" if "v \<in> set [start..<stop]" for v
    using that assms(2) by simp
  have rec: "take 9 (drop (9 * j) buf) = zfill (dec_str (start + j)) 8 @ [CHR 0x0A]
      \<and> length (zfill (dec_str (start + j)) 8) = 8" if j: "j < stop - start" for j
  proof -
    have "take 9 (drop (9 * j) (concat (map (spec_record 9) [start..<stop])))
        = spec_record 9 ([start..<stop] ! j)"
      using j fits by (intro nth_record) (simp_all add: length_spec_record)
    moreover have "start + j < 10 ^ 8" using j assms(2) by simp
    then have "length (dec_str (start + j)) \<le> 8" by (intro length_dec_str) simp_all
    ultimately show ?thesis using j by (simp add: buf_def spec_record_def zfill_def)
  qed
  have "fst (generate_chunk (\<lambda>r. False) (\<lambda>k. False) (42, 43))
      = Some (format_batch (map word_of_nat [42..<43]))"
    by (intro generate_chunk_runs) simp_all
  also have "format_batch (map word_of_nat [42..<43]) = ''00000042'' @ [CHR 0x0A]"
    by (simp add: format_batch_def format_record_def astype_U8_def zfill_def dec_str.simps
        digit_char_simps replicate_numeral)
  finally have ex: "fst (generate_chunk (\<lambda>r. False) (\<lambda>k. False) (42, 43))
      = Some (''00000042'' @ [CHR 0x0A])" .
  show ?thesis using ret len rec ex buf_def by blast
qed

theorem generate_chunk_encoding_witness:
  "(42::nat) < 44 \<and> (44::nat) \<le> 10 ^ 8 \<and> (\<forall>r. \<not> (\<lambda>r::nat. False) r) \<and> (\<forall>k. \<not> (\<lambda>k::nat. False) k)
   \<and> fst (generate_chunk (\<lambda>r. False) (\<lambda>k. False) (42, 44))
       = Some (''00000042'' @ [CHR 0x0A] @ ''00000043'' @ [CHR 0x0A])"
proof -
  have h1: "(42::nat) < 44" and h2: "(44::nat) \<le> 10 ^ 8"
    and h3: "\<forall>r. \<not> (\<lambda>r::nat. False) r" and h4: "\<forall>k. \<not> (\<lambda>k::nat. False) k"
    by simp_all
  obtain buf where "fst (generate_chunk (\<lambda>r. False) (\<lambda>k. False) (42, 44)) = Some buf"
    and "buf = concat (map (spec_record 9) [42..<44])"
    using generate_chunk_encoding [OF h1 h2 h3 h4] by blast
  moreover have "concat (map (spec_record 9) [42..<44])
      = ''00000042'' @ [CHR 0x0A] @ ''00000043'' @ [CHR 0x0A]"
    by (simp add: spec_record_def zfill_def dec_str.simps digit_char_simps replicate_numeral)
  ultimately show ?thesis using h1 h2 by simp
qed

text \<open>
  C9. For every chunk and every behaviour of the flag, \<^verbatim>\<open>generate_chunk\<close> reads the flag
  before it starts (read 0) and then once before every inner batch; a batch has at most
  100000 records and directly follows a read that gave false, and a read that gives true
  ends the call (\<open>paced\<close>). If the flag is true at read \<open>r\<close>, one of the reads the loop
  can make, the call returns the cancellation marker \<open>None\<close> and has emitted at most
  \<open>r - 1\<close> batches: after the last read that still gave false, at most one batch.
\<close>

theorem generate_chunk_cancellation:
  assumes "start < stop"
  shows "\<exists>tl. snd (generate_chunk flag fault (start, stop)) = ReadFlag (flag 0) # tl
      \<and> (flag 0 \<longrightarrow> tl = [])
      \<and> paced tl
      \<and> (\<forall>r. flag r \<and> r \<le> length (range_step 0 (stop - start) (min 100000 (stop - start)))
            \<longrightarrow> fst (generate_chunk flag fault (start, stop)) = None
              \<and> emitted (snd (generate_chunk flag fault (start, stop))) \<le> r - 1)"
proof (cases "flag 0")
  case True
  then have "generate_chunk flag fault (start, stop) = (None, [ReadFlag True])"
    by (simp add: generate_chunk_def)
  then show ?thesis using True by (simp add: emitted_def)
next
  case False
  define numbers :: "32 word list" where "numbers = map word_of_nat [start..<stop]"
  define bs where "bs = min 100000 (stop - start)"
  have bs: "0 < bs" "bs \<le> 100000" using assms by (simp_all add: bs_def)
  have gc: "generate_chunk flag fault (start, stop)
      = batch_loop flag fault numbers bs 0 0 ([], [ReadFlag False])"
    using False assms by (simp add: generate_chunk_def numbers_def bs_def)
  have n: "length numbers = stop - start" by (simp add: numbers_def)
  obtain tl where tl: "snd (batch_loop flag fault numbers bs 0 0 ([], [ReadFlag False]))
        = [ReadFlag False] @ tl" "paced tl"
    and canc: "\<And>r. flag r \<Longrightarrow> 0 < r \<Longrightarrow> r \<le> 0 + length (range_step 0 (length numbers) bs) \<Longrightarrow>
        fst (batch_loop flag fault numbers bs 0 0 ([], [ReadFlag False])) = None
        \<and> emitted tl \<le> r - 1 - 0"
    using batch_loop_trace [OF bs, of flag fault numbers 0 0 "[]" "[ReadFlag False]"] by blast
  have "fst (generate_chunk flag fault (start, stop)) = None
      \<and> emitted (snd (generate_chunk flag fault (start, stop))) \<le> r - 1"
    if r: "flag r" "r \<le> length (range_step 0 (stop - start) bs)" for r
  proof -
    have "0 < r" using r(1) False by (cases r) simp_all
    then show ?thesis using canc [of r] r n by (simp add: gc tl emitted_def)
  qed
  then have all: "\<forall>r. flag r
        \<and> r \<le> length (range_step 0 (stop - start) (min 100000 (stop - start)))
      \<longrightarrow> fst (generate_chunk flag fault (start, stop)) = None
        \<and> emitted (snd (generate_chunk flag fault (start, stop))) \<le> r - 1"
    unfolding bs_def by blast
  have "snd (generate_chunk flag fault (start, stop)) = ReadFlag (flag 0) # tl"
    using False tl(1) by (simp add: gc)
  then show ?thesis using all tl(2) False by blast
qed

theorem generate_chunk_cancellation_witness:
  "(0::nat) < 250000
   \<and> fst (generate_chunk (\<lambda>r. 2 \<le> r) (\<lambda>k. False) (0, 250000)) = None
   \<and> emitted (snd (generate_chunk (\<lambda>r. 2 \<le> r) (\<lambda>k. False) (0, 250000))) \<le> 1
   \<and> generate_chunk (\<lambda>r. 1 \<le> r) (\<lambda>k. False) (0, 3) = (None, [ReadFlag False, ReadFlag True])"
proof -
  have h: "(0::nat) < 250000" by simp
  have n: "length (range_step 0 (250000 - 0) (min 100000 (250000 - 0))) = 3"
    by (simp add: range_step.simps)
  have "\<forall>r. (2::nat) \<le> r \<and> r \<le> length (range_step 0 (250000 - 0) (min 100000 (250000 - 0)))
      \<longrightarrow> fst (generate_chunk (\<lambda>r. 2 \<le> r) (\<lambda>k. False) (0, 250000)) = None
        \<and> emitted (snd (generate_chunk (\<lambda>r. 2 \<le> r) (\<lambda>k. False) (0, 250000))) \<le> r - 1"
    using generate_chunk_cancellation [OF h, of "\<lambda>r. 2 \<le> r" "\<lambda>k. False"] by blast
  then have "(2::nat) \<le> 2 \<and> (2::nat) \<le> 3
      \<longrightarrow> fst (generate_chunk (\<lambda>r. 2 \<le> r) (\<lambda>k. False) (0, 250000)) = None
        \<and> emitted (snd (generate_chunk (\<lambda>r. 2 \<le> r) (\<lambda>k. False) (0, 250000))) \<le> 2 - 1"
    unfolding n by (rule spec)
  then have a: "fst (generate_chunk (\<lambda>r. 2 \<le> r) (\<lambda>k. False) (0, 250000)) = None
      \<and> emitted (snd (generate_chunk (\<lambda>r. 2 \<le> r) (\<lambda>k. False) (0, 250000))) \<le> 1"
    by simp
  have b: "generate_chunk (\<lambda>r. 1 \<le> r) (\<lambda>k. False) (0, 3) = (None, [ReadFlag False, ReadFlag True])"
    by (simp add: generate_chunk_def batch_loop.simps [of _ _ _ _ 0 0])
  show ?thesis using h a b by blast
qed

subsection \<open>Slice assignment\<close>

lemma mm_assign_inside:
  "start_pos + length data \<le> length m \<Longrightarrow>
   mm_assign m start_pos data
     = Inr (take start_pos m @ data @ drop (start_pos + length data) m)"
  by (simp add: mm_assign_def Let_def min_def)

lemma mm_assign_length: "mm_assign m start_pos data = Inr m' \<Longrightarrow> length m' = length m"
  by (auto simp: mm_assign_def Let_def min_def split: if_splits)

lemma mm_assign_error: "mm_assign m start_pos data = Inl x \<Longrightarrow> x = IndexError"
  by (auto simp: mm_assign_def Let_def split: if_splits)

subsection \<open>The coordinator on the chunk list\<close>

lemma ceil_covers:
  assumes "0 < (c::nat)"
  shows "n \<le> ((n + c - 1) div c) * c"
proof -
  have "n + c - 1 < ((n + c - 1) div c) * c + c"
    using assms dividend_less_div_times [of c "n + c - 1"] by (simp add: add.commute)
  then show ?thesis by linarith
qed

lemma enumerate_chunks:
  assumes "0 < CHUNK_SIZE cfg"
  shows "enumerate 0 (chunks cfg) =
    map (\<lambda>i. (i, i * CHUNK_SIZE cfg, min ((i + 1) * CHUNK_SIZE cfg) (TOTAL_ENTRIES cfg)))
      [0..<(TOTAL_ENTRIES cfg + CHUNK_SIZE cfg - 1) div CHUNK_SIZE cfg]"
  unfolding chunks_closed [OF assms]
  by (simp add: enumerate_eq_zip zip_map2 zip_same_conv_map)

lemma format_batch_upt:
  "s \<le> t \<Longrightarrow> format_batch (map word_of_nat [0..<s]) @ format_batch (map word_of_nat [s..<t])
    = format_batch (map word_of_nat [0..<t])"
proof -
  assume "s \<le> t"
  then have "[0..<t] = [0..<s] @ [s..<t]" by (metis le0 le_Suc_ex upt_add_eq_append)
  then show ?thesis by (simp add: format_batch_append)
qed


text \<open>
  The loop invariant for record width 9. Before chunk \<open>j\<close> the mapping has its full
  length, its first \<open>9 * min (j * C) N\<close> bytes are the records of the values below
  \<open>min (j * C) N\<close>, and the slice assignments so far are those of the chunks below \<open>j\<close>.
\<close>

lemma coordinator_invariant:
  fixes cfg :: config and e :: env
  assumes W: "ENTRY_LENGTH cfg = 9" and C: "0 < CHUNK_SIZE cfg" and N: "0 < TOTAL_ENTRIES cfg"
    and k: "k = (TOTAL_ENTRIES cfg + CHUNK_SIZE cfg - 1) div CHUNK_SIZE cfg"
    and h: "h = (\<lambda>i. (i, i * CHUNK_SIZE cfg,
                min ((i + 1) * CHUNK_SIZE cfg) (TOTAL_ENTRIES cfg)))"
    and g: "g = (\<lambda>i. (i * CHUNK_SIZE cfg * 9,
                9 * (min ((i + 1) * CHUNK_SIZE cfg) (TOTAL_ENTRIES cfg) - i * CHUNK_SIZE cfg)))"
  shows "j \<le> k \<Longrightarrow> length (mm st) = 9 * TOTAL_ENTRIES cfg \<Longrightarrow>
     take (9 * min (j * CHUNK_SIZE cfg) (TOTAL_ENTRIES cfg)) (mm st)
       = format_batch (map word_of_nat [0..<min (j * CHUNK_SIZE cfg) (TOTAL_ENTRIES cfg)]) \<Longrightarrow>
     written st = map g [0..<j] \<Longrightarrow>
     coordinator cfg e (map h [j..<k]) st = (r, st') \<Longrightarrow>
     (\<exists>n. j \<le> n \<and> n \<le> k \<and> written st' = map g [0..<n] \<and> (r = None \<longrightarrow> n = k))
     \<and> r \<noteq> Some IndexError
     \<and> (r = None \<longrightarrow> mm st' = format_batch (map word_of_nat [0..<TOTAL_ENTRIES cfg]))
     \<and> ((\<forall>i. \<not> signal_at e i) \<and> (\<forall>i b. \<not> worker_fault e i b) \<and> \<not> shutdown_flag st
          \<longrightarrow> r = None)"
proof (induction "k - j" arbitrary: j st)
  case 0
  then have jk: "j = k" by simp
  have res: "r = None" "st' = st" using "0.prems"(5) by (simp_all add: jk)
  have "TOTAL_ENTRIES cfg \<le> k * CHUNK_SIZE cfg" unfolding k using C by (rule ceil_covers)
  then have "min (j * CHUNK_SIZE cfg) (TOTAL_ENTRIES cfg) = TOTAL_ENTRIES cfg" by (simp add: jk)
  then have "mm st = format_batch (map word_of_nat [0..<TOTAL_ENTRIES cfg])"
    using "0.prems"(2,3) by simp
  then show ?case using res "0.prems"(4) jk by auto
next
  case (Suc d)
  define s where "s = j * CHUNK_SIZE cfg"
  define t where "t = min ((j + 1) * CHUNK_SIZE cfg) (TOTAL_ENTRIES cfg)"
  have jk: "j < k" using Suc.hyps(2) by simp
  have sN: "s < TOTAL_ENTRIES cfg" unfolding s_def using jk N unfolding k by (rule below_ceil)
  have st: "s < t" using sN C by (simp add: s_def t_def)
  have tN: "t \<le> TOTAL_ENTRIES cfg" by (simp add: t_def)
  have list: "map h [j..<k] = (j, s, t) # map h [Suc j..<k]"
    using jk by (simp add: upt_conv_Cons h s_def t_def)
  have run: "coordinator cfg e ((j, s, t) # map h [Suc j..<k]) st = (r, st')"
    using Suc.prems(5) by (simp add: list)
  show ?case
  proof (cases "signal_at e j")
    case True
    then have "r = Some KeyboardInterrupt" "written st' = written st"
      using run by (auto simp: Let_def)
    then show ?thesis using Suc.prems(1,4) True by auto
  next
    case nosig: False
    show ?thesis
    proof (cases "fst (generate_chunk (\<lambda>r. shutdown_flag st) (worker_fault e j) (s, t))")
      case None
      then have res: "r = Some (RuntimeError ''Chunk generation failed'')"
          "written st' = written st"
        using run nosig by (auto simp: Let_def)
      have "\<not> ((\<forall>i b. \<not> worker_fault e i b) \<and> \<not> shutdown_flag st)"
      proof
        assume "(\<forall>i b. \<not> worker_fault e i b) \<and> \<not> shutdown_flag st"
        then have "fst (generate_chunk (\<lambda>r. shutdown_flag st) (worker_fault e j) (s, t))
            = Some (format_batch (map word_of_nat [s..<t]))"
          using st by (intro generate_chunk_runs) simp_all
        then show False using None by simp
      qed
      then show ?thesis using res Suc.prems(1,4) by auto
    next
      case (Some data)
      have data: "data = format_batch (map word_of_nat [s..<t])"
        using st Some by (rule generate_chunk_result)
      have len: "length data = 9 * (t - s)" by (simp add: data length_format_batch)
      have pos: "j * CHUNK_SIZE cfg * ENTRY_LENGTH cfg = 9 * s" by (simp add: W s_def)
      have fit: "9 * s + length data \<le> length (mm st)"
        using st tN by (simp add: len Suc.prems(2))
      define m2 where "m2 = take (9 * s) (mm st) @ data @ drop (9 * s + length data) (mm st)"
      define st2 where "st2 = st\<lparr>mm := m2, written := written st @ [(9 * s, length data)]\<rparr>"
      have assign: "mm_assign (mm st) (9 * s) data = Inr m2"
        unfolding m2_def using fit by (rule mm_assign_inside)
      have next_run: "coordinator cfg e (map h [Suc j..<k]) st2 = (r, st')"
        using run nosig Some assign by (simp add: Let_def pos st2_def)
      have i1: "Suc j \<le> k" using jk by simp
      have i2: "length (mm st2) = 9 * TOTAL_ENTRIES cfg"
        using mm_assign_length [OF assign] Suc.prems(2) by (simp add: st2_def)
      have smin: "min (j * CHUNK_SIZE cfg) (TOTAL_ENTRIES cfg) = s"
        using sN by (simp add: s_def)
      have tmin: "min (Suc j * CHUNK_SIZE cfg) (TOTAL_ENTRIES cfg) = t" by (simp add: t_def)
      have before: "take (9 * s) (mm st) = format_batch (map word_of_nat [0..<s])"
        using Suc.prems(3) by (simp add: smin)
      have l1: "length (take (9 * s) (mm st)) = 9 * s"
        using sN by (simp add: Suc.prems(2))
      define P where "P = take (9 * s) (mm st) @ data"
      have "length P = 9 * s + 9 * (t - s)"
        unfolding P_def length_append l1 len ..
      then have lP: "9 * t = length P" using st by simp
      have "m2 = P @ drop (9 * s + length data) (mm st)" by (simp add: m2_def P_def)
      then have "take (9 * t) m2 = P" unfolding lP by simp
      also have "P = take (9 * s) (mm st) @ data" by (rule P_def)
      also have "\<dots> = format_batch (map word_of_nat [0..<t])"
        unfolding before data using st by (intro format_batch_upt) simp
      finally have "take (9 * t) (mm st2) = format_batch (map word_of_nat [0..<t])"
        by (simp add: st2_def)
      then have i3: "take (9 * min (Suc j * CHUNK_SIZE cfg) (TOTAL_ENTRIES cfg)) (mm st2)
          = format_batch (map word_of_nat [0..<min (Suc j * CHUNK_SIZE cfg) (TOTAL_ENTRIES cfg)])"
        unfolding tmin .
      have "g j = (9 * s, length data)" by (simp add: g s_def t_def len)
      then have i4: "written st2 = map g [0..<Suc j]" by (simp add: st2_def Suc.prems(4))
      have d: "d = k - Suc j" using Suc.hyps(2) by simp
      have "(\<exists>n. Suc j \<le> n \<and> n \<le> k \<and> written st' = map g [0..<n] \<and> (r = None \<longrightarrow> n = k))
          \<and> r \<noteq> Some IndexError
          \<and> (r = None \<longrightarrow> mm st' = format_batch (map word_of_nat [0..<TOTAL_ENTRIES cfg]))
          \<and> ((\<forall>i. \<not> signal_at e i) \<and> (\<forall>i b. \<not> worker_fault e i b) \<and> \<not> shutdown_flag st2
               \<longrightarrow> r = None)"
        using d i1 i2 i3 i4 next_run by (rule Suc.hyps(1))
      then obtain n where n: "Suc j \<le> n" "n \<le> k" "written st' = map g [0..<n]"
          "r = None \<longrightarrow> n = k"
        and ne: "r \<noteq> Some IndexError"
        and c: "r = None \<longrightarrow> mm st' = format_batch (map word_of_nat [0..<TOTAL_ENTRIES cfg])"
        and q: "(\<forall>i. \<not> signal_at e i) \<and> (\<forall>i b. \<not> worker_fault e i b) \<and> \<not> shutdown_flag st2
            \<longrightarrow> r = None"
        by blast
      have A: "\<exists>n. j \<le> n \<and> n \<le> k \<and> written st' = map g [0..<n] \<and> (r = None \<longrightarrow> n = k)"
        using n by (intro exI [of _ n]) simp
      have "shutdown_flag st2 = shutdown_flag st" by (simp add: st2_def)
      then have Q: "(\<forall>i. \<not> signal_at e i) \<and> (\<forall>i b. \<not> worker_fault e i b) \<and> \<not> shutdown_flag st
          \<longrightarrow> r = None"
        using q by simp
      show ?thesis using A ne c Q by blast
    qed
  qed
qed


text \<open>The invariant at the start of the loop: the whole chunk list, the zero-filled mapping.\<close>

lemma coordinator_run:
  assumes W: "ENTRY_LENGTH cfg = 9" and C: "0 < CHUNK_SIZE cfg" and N: "0 < TOTAL_ENTRIES cfg"
    and run: "coordinator cfg e (enumerate 0 (chunks cfg))
        \<lparr>mm = replicate (TOTAL_ENTRIES cfg * ENTRY_LENGTH cfg) (CHR 0x00), shutdown_flag = False,
         written = []\<rparr> = (r, st')"
  shows "(\<exists>n \<le> length (chunks cfg).
        written st' = map (\<lambda>i. (fst (chunks cfg ! i) * 9,
                              (snd (chunks cfg ! i) - fst (chunks cfg ! i)) * 9)) [0..<n]
        \<and> (r = None \<longrightarrow> n = length (chunks cfg)))
     \<and> r \<noteq> Some IndexError
     \<and> (r = None \<longrightarrow> mm st' = format_batch (map word_of_nat [0..<TOTAL_ENTRIES cfg]))
     \<and> ((\<forall>i. \<not> signal_at e i) \<and> (\<forall>i b. \<not> worker_fault e i b) \<longrightarrow> r = None)"
proof -
  define k where "k = (TOTAL_ENTRIES cfg + CHUNK_SIZE cfg - 1) div CHUNK_SIZE cfg"
  define h where "h = (\<lambda>i. (i, i * CHUNK_SIZE cfg,
      min ((i + 1) * CHUNK_SIZE cfg) (TOTAL_ENTRIES cfg)))"
  define g where "g = (\<lambda>i. (i * CHUNK_SIZE cfg * 9,
      9 * (min ((i + 1) * CHUNK_SIZE cfg) (TOTAL_ENTRIES cfg) - i * CHUNK_SIZE cfg)))"
  define st where "st = \<lparr>mm = replicate (TOTAL_ENTRIES cfg * ENTRY_LENGTH cfg) (CHR 0x00),
      shutdown_flag = False, written = []\<rparr>"
  have len: "length (chunks cfg) = k" by (simp add: chunks_closed [OF C] k_def)
  have nth: "chunks cfg ! i = (i * CHUNK_SIZE cfg,
      min ((i + 1) * CHUNK_SIZE cfg) (TOTAL_ENTRIES cfg))" if "i < k" for i
    using that by (simp add: chunks_closed [OF C] k_def)
  have a1: "0 \<le> k" by simp
  have a2: "length (mm st) = 9 * TOTAL_ENTRIES cfg" by (simp add: st_def W)
  have a3: "take (9 * min (0 * CHUNK_SIZE cfg) (TOTAL_ENTRIES cfg)) (mm st)
      = format_batch (map word_of_nat [0..<min (0 * CHUNK_SIZE cfg) (TOTAL_ENTRIES cfg)])"
    by (simp add: format_batch_Nil)
  have a4: "written st = map g [0..<0]" by (simp add: st_def)
  have a5: "coordinator cfg e (map h [0..<k]) st = (r, st')"
    using run unfolding enumerate_chunks [OF C] h_def k_def st_def .
  have inv: "(\<exists>n. 0 \<le> n \<and> n \<le> k \<and> written st' = map g [0..<n] \<and> (r = None \<longrightarrow> n = k))
      \<and> r \<noteq> Some IndexError
      \<and> (r = None \<longrightarrow> mm st' = format_batch (map word_of_nat [0..<TOTAL_ENTRIES cfg]))
      \<and> ((\<forall>i. \<not> signal_at e i) \<and> (\<forall>i b. \<not> worker_fault e i b) \<and> \<not> shutdown_flag st
           \<longrightarrow> r = None)"
    using W C N k_def h_def g_def a1 a2 a3 a4 a5 by (rule coordinator_invariant)
  then obtain n where n: "n \<le> k" "written st' = map g [0..<n]" "r = None \<longrightarrow> n = k"
    by blast
  have "map g [0..<n] = map (\<lambda>i. (fst (chunks cfg ! i) * 9,
      (snd (chunks cfg ! i) - fst (chunks cfg ! i)) * 9)) [0..<n]"
    using n(1) by (intro map_cong) (simp_all add: nth g_def mult.commute)
  then have "\<exists>n \<le> length (chunks cfg).
      written st' = map (\<lambda>i. (fst (chunks cfg ! i) * 9,
                            (snd (chunks cfg ! i) - fst (chunks cfg ! i)) * 9)) [0..<n]
      \<and> (r = None \<longrightarrow> n = length (chunks cfg))"
    using n len by auto
  moreover have "\<not> shutdown_flag st" by (simp add: st_def)
  ultimately show ?thesis using inv by blast
qed

subsection \<open>Decoding the records\<close>

lemma digit_value: "d < 10 \<Longrightarrow> of_char (digit_char d) - 48 = (d::nat)"
  by (simp add: digit_char_def)

lemma parse_dec_snoc: "parse_dec (s @ [c]) = 10 * parse_dec s + (of_char c - 48)"
  by (simp add: parse_dec_def)

lemma parse_dec_dec_str: "parse_dec (dec_str v) = v"
proof (induction v rule: dec_str.induct)
  case (1 n)
  show ?case
  proof (cases "n < 10")
    case True
    then show ?thesis by (simp add: dec_str.simps [of n] parse_dec_def digit_value)
  next
    case False
    then have "parse_dec (dec_str (n div 10)) = n div 10" using "1.IH" by simp
    then show ?thesis using False
      by (simp add: dec_str.simps [of n] parse_dec_snoc digit_value)
  qed
qed

lemma parse_dec_zeros: "parse_dec (replicate n (CHR ''0'') @ s) = parse_dec s"
proof -
  have "foldl (\<lambda>acc c. 10 * acc + (of_char c - 48)) (0::nat) (replicate n (CHR ''0'')) = 0"
    by (induction n) simp_all
  then show ?thesis by (simp add: parse_dec_def)
qed

lemma parse_spec_record:
  assumes "v < 10 ^ 8"
  shows "parse_dec (take 8 (spec_record 9 v)) = v"
proof -
  have "length (dec_str v) \<le> 8" using assms by (intro length_dec_str) simp_all
  then have "take 8 (spec_record 9 v) = replicate (8 - length (dec_str v)) (CHR ''0'') @ dec_str v"
    by (simp add: spec_record_def zfill_def)
  then show ?thesis by (simp add: parse_dec_zeros parse_dec_dec_str)
qed

lemma split_records_concat:
  assumes "0 < W" "\<forall>x \<in> set xs. length (f x) = W"
  shows "split_records W (concat (map f xs)) = map f xs"
  using assms(2)
proof (induction xs)
  case Nil
  then show ?case by (simp add: split_records.simps)
next
  case (Cons x xs)
  have "f x \<noteq> []" using Cons.prems assms(1) by auto
  then show ?case
    using Cons assms(1) by (subst split_records.simps) simp
qed

lemma decode_records:
  assumes "N \<le> 10 ^ 8"
  shows "decode_file 9 (concat (map (spec_record 9) [0..<N])) = [0..<N]"
proof -
  have fits: "v < 10 ^ 8" if "v \<in> set [0..<N]" for v using that assms by simp
  have "split_records 9 (concat (map (spec_record 9) [0..<N])) = map (spec_record 9) [0..<N]"
    using fits by (intro split_records_concat) (simp_all add: length_spec_record)
  then have "decode_file 9 (concat (map (spec_record 9) [0..<N]))
      = map (\<lambda>v. parse_dec (take 8 (spec_record 9 v))) [0..<N]"
    by (simp add: decode_file_def o_def)
  also have "\<dots> = map (\<lambda>v. v) [0..<N]"
    using fits by (intro map_cong) (simp_all add: parse_spec_record)
  finally show ?thesis by simp
qed

subsection \<open>The job in terms of its parts\<close>

lemma check_disk_space_frame:
  "check_disk_space e required w = (x, w1) \<Longrightarrow>
   temp_file w1 = temp_file w \<and> output_file w1 = output_file w \<and> trace w1 = trace w"
  by (auto simp: check_disk_space_def ensure_directory_exists_def split: if_splits)

lemma check_disk_space_passes:
  "fst (check_disk_space e required w) = None
    \<longleftrightarrow> (dir_exists w \<or> \<not> mkdir_fails e) \<and> required \<le> disk_free e"
  by (auto simp: check_disk_space_def ensure_directory_exists_def)

lemma check_disk_space_insufficient:
  "dir_exists w \<or> \<not> mkdir_fails e \<Longrightarrow> disk_free e < required \<Longrightarrow>
   fst (check_disk_space e required w) = Some (IOError (error_msg required (disk_free e)))"
  by (auto simp: check_disk_space_def ensure_directory_exists_def)

lemma job_failed_check:
  assumes "fst (check_disk_space e (TOTAL_ENTRIES cfg * ENTRY_LENGTH cfg) w) \<noteq> None"
  shows "generate_full_8digit_combinations cfg e w
    = (Inl UnboundLocalError, snd (check_disk_space e (TOTAL_ENTRIES cfg * ENTRY_LENGTH cfg) w))"
  using assms
  by (cases "check_disk_space e (TOTAL_ENTRIES cfg * ENTRY_LENGTH cfg) w")
    (auto simp: generate_full_8digit_combinations_def Let_def)

lemma main_exit_code:
  "fst (main cfg e w) = (if fst (generate_full_8digit_combinations cfg e w) = Inr True then 0 else 1)"
  by (cases "generate_full_8digit_combinations cfg e w")
    (auto simp: main_def split: sum.splits)

lemma job_degenerate:
  assumes "check_disk_space e (TOTAL_ENTRIES cfg * ENTRY_LENGTH cfg) w = (None, w1)"
    and "TOTAL_ENTRIES cfg * ENTRY_LENGTH cfg = 0 \<or> CHUNK_SIZE cfg = 0"
  shows "fst (generate_full_8digit_combinations cfg e w) = Inr False"
    and "temp_file (snd (generate_full_8digit_combinations cfg e w)) = None"
    and "output_file (snd (generate_full_8digit_combinations cfg e w)) = output_file w1"
    and "trace (snd (generate_full_8digit_combinations cfg e w))
      = trace w1 @ [Create (TOTAL_ENTRIES cfg * ENTRY_LENGTH cfg), Delete]"
  using assms
  by (auto simp: generate_full_8digit_combinations_def Let_def cleanup_resources_def)

lemma job_loop:
  assumes "check_disk_space e (TOTAL_ENTRIES cfg * ENTRY_LENGTH cfg) w = (None, w1)"
    and "TOTAL_ENTRIES cfg * ENTRY_LENGTH cfg \<noteq> 0" and "CHUNK_SIZE cfg \<noteq> 0"
    and "coordinator cfg e (enumerate 0 (chunks cfg))
        \<lparr>mm = replicate (TOTAL_ENTRIES cfg * ENTRY_LENGTH cfg) (CHR 0x00), shutdown_flag = False,
         written = []\<rparr> = (r, st)"
  shows "fst (generate_full_8digit_combinations cfg e w) = Inr (r = None)"
    and "temp_file (snd (generate_full_8digit_combinations cfg e w)) = None"
    and "output_file (snd (generate_full_8digit_combinations cfg e w))
      = (if r = None then Some (mm st) else output_file w1)"
    and "trace (snd (generate_full_8digit_combinations cfg e w))
      = trace w1 @ Create (TOTAL_ENTRIES cfg * ENTRY_LENGTH cfg)
          # map (\<lambda>(a, l). Write a l) (written st) @ [if r = None then Rename else Delete]"
  using assms
  by (auto simp: generate_full_8digit_combinations_def Let_def cleanup_resources_def
      split: option.splits)


lemma job_loop_run_collapse:
  "coordinator cfg e (enumerate 0 (chunks cfg))
     \<lparr>mm = replicate (TOTAL_ENTRIES cfg * ENTRY_LENGTH cfg) (CHR 0x00), shutdown_flag = False,
      written = []\<rparr> = (fst (job_loop_run cfg e), snd (job_loop_run cfg e))"
  by (simp add: job_loop_run_def)

lemma job_quiet_succeeds:
  assumes W: "ENTRY_LENGTH cfg = 9" and N: "0 < TOTAL_ENTRIES cfg" and C: "0 < CHUNK_SIZE cfg"
    and dir: "dir_exists w \<or> \<not> mkdir_fails e"
    and space: "TOTAL_ENTRIES cfg * ENTRY_LENGTH cfg \<le> disk_free e"
    and quiet: "\<forall>i. \<not> signal_at e i" "\<forall>i b. \<not> worker_fault e i b"
  shows "fst (generate_full_8digit_combinations cfg e w) = Inr True"
    and "\<exists>evs. trace (snd (generate_full_8digit_combinations cfg e w))
      = trace w @ Create (TOTAL_ENTRIES cfg * ENTRY_LENGTH cfg) # evs"
proof -
  obtain w1 where chk: "check_disk_space e (TOTAL_ENTRIES cfg * ENTRY_LENGTH cfg) w = (None, w1)"
    using check_disk_space_passes [of e "TOTAL_ENTRIES cfg * ENTRY_LENGTH cfg" w] dir space
    by (cases "check_disk_space e (TOTAL_ENTRIES cfg * ENTRY_LENGTH cfg) w") auto
  have nz: "TOTAL_ENTRIES cfg * ENTRY_LENGTH cfg \<noteq> 0" "CHUNK_SIZE cfg \<noteq> 0"
    using W N C by simp_all
  have "fst (job_loop_run cfg e) = None"
    using coordinator_run [OF W C N job_loop_run_collapse] quiet by blast
  then show "fst (generate_full_8digit_combinations cfg e w) = Inr True"
    using job_loop(1) [OF chk nz job_loop_run_collapse] by simp
  have "trace w1 = trace w" using check_disk_space_frame [OF chk] by simp
  then show "\<exists>evs. trace (snd (generate_full_8digit_combinations cfg e w))
      = trace w @ Create (TOTAL_ENTRIES cfg * ENTRY_LENGTH cfg) # evs"
    using job_loop(4) [OF chk nz job_loop_run_collapse] by simp
qed

lemma job_success_content:
  assumes W: "ENTRY_LENGTH cfg = 9" and N: "0 < TOTAL_ENTRIES cfg" and C: "0 < CHUNK_SIZE cfg"
    and ok: "fst (generate_full_8digit_combinations cfg e w) = Inr True"
  shows "output_file (snd (generate_full_8digit_combinations cfg e w))
      = Some (format_batch (map word_of_nat [0..<TOTAL_ENTRIES cfg]))"
    and "temp_file (snd (generate_full_8digit_combinations cfg e w)) = None"
proof -
  have pass: "fst (check_disk_space e (TOTAL_ENTRIES cfg * ENTRY_LENGTH cfg) w) = None"
  proof (rule ccontr)
    assume "fst (check_disk_space e (TOTAL_ENTRIES cfg * ENTRY_LENGTH cfg) w) \<noteq> None"
    then show False using job_failed_check [of e cfg w] ok by simp
  qed
  then obtain w1 where
    chk: "check_disk_space e (TOTAL_ENTRIES cfg * ENTRY_LENGTH cfg) w = (None, w1)"
    by (cases "check_disk_space e (TOTAL_ENTRIES cfg * ENTRY_LENGTH cfg) w") auto
  have nz: "TOTAL_ENTRIES cfg * ENTRY_LENGTH cfg \<noteq> 0" "CHUNK_SIZE cfg \<noteq> 0"
    using W N C by simp_all
  have r: "fst (job_loop_run cfg e) = None"
    using job_loop(1) [OF chk nz job_loop_run_collapse] ok by simp
  then have "mm (snd (job_loop_run cfg e)) = format_batch (map word_of_nat [0..<TOTAL_ENTRIES cfg])"
    using coordinator_run [OF W C N job_loop_run_collapse] by blast
  then show "output_file (snd (generate_full_8digit_combinations cfg e w))
      = Some (format_batch (map word_of_nat [0..<TOTAL_ENTRIES cfg]))"
    using job_loop(3) [OF chk nz job_loop_run_collapse] r by simp
  show "temp_file (snd (generate_full_8digit_combinations cfg e w)) = None"
    using job_loop(2) [OF chk nz job_loop_run_collapse] .
qed

subsection \<open>Small jobs, step by step\<close>

lemma generate_chunk_faulty:
  "start < stop \<Longrightarrow> \<not> flag 0 \<Longrightarrow> \<not> flag (Suc 0) \<Longrightarrow> fault 0 \<Longrightarrow>
   fst (generate_chunk flag fault (start, stop)) = None"
  by (simp add: generate_chunk_def batch_loop.simps [of _ _ _ _ 0 0] Let_def)

lemma loop_interrupted:
  assumes "chunks cfg = c # rest" "signal_at e 0"
  shows "fst (job_loop_run cfg e) = Some KeyboardInterrupt"
    and "written (snd (job_loop_run cfg e)) = []"
  using assms by (simp_all add: job_loop_run_def Let_def)

lemma loop_faulty:
  assumes "chunks cfg = (s, t) # rest" "s < t" "\<not> signal_at e 0" "worker_fault e 0 0"
  shows "fst (job_loop_run cfg e) = Some (RuntimeError ''Chunk generation failed'')"
    and "written (snd (job_loop_run cfg e)) = []"
proof -
  have "fst (generate_chunk (\<lambda>r. False) (worker_fault e 0) (s, t)) = None"
    using assms(2,4) by (intro generate_chunk_faulty) simp_all
  then show "fst (job_loop_run cfg e) = Some (RuntimeError ''Chunk generation failed'')"
    and "written (snd (job_loop_run cfg e)) = []"
    using assms(1,3) by (simp_all add: job_loop_run_def Let_def)
qed

lemma loop_one_chunk:
  assumes "chunks cfg = [(0, t)]" "0 < t" "\<not> signal_at e 0" "\<forall>b. \<not> worker_fault e 0 b"
  shows "job_loop_run cfg e =
    (case mm_assign (replicate (TOTAL_ENTRIES cfg * ENTRY_LENGTH cfg) (CHR 0x00)) 0
            (format_batch (map word_of_nat [0..<t])) of
       Inl x \<Rightarrow> (Some x, \<lparr>mm = replicate (TOTAL_ENTRIES cfg * ENTRY_LENGTH cfg) (CHR 0x00),
                           shutdown_flag = False, written = []\<rparr>)
     | Inr m \<Rightarrow> (None, \<lparr>mm = m, shutdown_flag = False, written = [(0, 9 * t)]\<rparr>))"
proof -
  have "fst (generate_chunk (\<lambda>r. False) (worker_fault e 0) (0, t))
      = Some (format_batch (map word_of_nat [0..<t]))"
    using assms(2,4) by (intro generate_chunk_runs) simp_all
  then show ?thesis
    using assms(1,3)
    by (simp add: job_loop_run_def Let_def length_format_batch split: sum.splits)
qed

lemma record_zero: "format_batch [0] = ''00000000\<newline>''"
  by (simp add: format_batch_def format_record_def astype_U8_def zfill_def dec_str.simps
      digit_char_simps replicate_numeral)

subsection \<open>C1: the published file\<close>

text \<open>
  C1, as the code has it. \<^verbatim>\<open>generate_chunk\<close> writes records of 8 digits and a newline
  whatever \<^verbatim>\<open>ENTRY_LENGTH\<close> is, so the statement holds for record width \<open>W = 9\<close>: for every
  \<open>N\<close> with \<open>0 < N \<le> 10\<^sup>8\<close> and every \<open>C > 0\<close>, a run that returns \<open>True\<close> has published at
  the output path exactly \<open>N * W\<close> bytes, the concatenation for \<open>v = 0, \<dots>, N - 1\<close> in
  ascending order of the zero-padded 8-digit decimal of \<open>v\<close> and a newline; decoding the
  records gives \<open>0, \<dots>, N - 1\<close>; the temporary file is gone. With enough disk space, no
  signal and no worker fault the run does return \<open>True\<close>.
\<close>

theorem published_file_content:
  assumes "ENTRY_LENGTH cfg = 9" and "0 < TOTAL_ENTRIES cfg" and "TOTAL_ENTRIES cfg \<le> 10 ^ 8"
    and "0 < CHUNK_SIZE cfg"
  shows "(fst (generate_full_8digit_combinations cfg e w) = Inr True \<longrightarrow>
        output_file (snd (generate_full_8digit_combinations cfg e w))
          = Some (concat (map (spec_record (ENTRY_LENGTH cfg)) [0..<TOTAL_ENTRIES cfg]))
        \<and> length (concat (map (spec_record (ENTRY_LENGTH cfg)) [0..<TOTAL_ENTRIES cfg]))
          = TOTAL_ENTRIES cfg * ENTRY_LENGTH cfg
        \<and> decode_file (ENTRY_LENGTH cfg)
            (concat (map (spec_record (ENTRY_LENGTH cfg)) [0..<TOTAL_ENTRIES cfg]))
          = [0..<TOTAL_ENTRIES cfg]
        \<and> temp_file (snd (generate_full_8digit_combinations cfg e w)) = None)
    \<and> ((dir_exists w \<or> \<not> mkdir_fails e)
        \<and> TOTAL_ENTRIES cfg * ENTRY_LENGTH cfg \<le> disk_free e
        \<and> (\<forall>i. \<not> signal_at e i) \<and> (\<forall>i b. \<not> worker_fault e i b)
        \<longrightarrow> fst (generate_full_8digit_combinations cfg e w) = Inr True)"
proof -
  let ?N = "TOTAL_ENTRIES cfg"
  let ?file = "concat (map (spec_record 9) [0..<?N])"
  have exact: "format_batch (map word_of_nat [0..<?N]) = ?file"
    using assms(3) by (rule format_batch_exact)
  have len: "length ?file = ?N * 9"
    using length_format_batch [of "map word_of_nat [0..<?N]"] by (simp add: exact)
  have dec: "decode_file 9 ?file = [0..<?N]" using assms(3) by (rule decode_records)
  have a: "output_file (snd (generate_full_8digit_combinations cfg e w)) = Some ?file
      \<and> temp_file (snd (generate_full_8digit_combinations cfg e w)) = None"
    if "fst (generate_full_8digit_combinations cfg e w) = Inr True"
    using job_success_content [OF assms(1,2,4) that] by (simp add: exact)
  have b: "fst (generate_full_8digit_combinations cfg e w) = Inr True"
    if "dir_exists w \<or> \<not> mkdir_fails e" "?N * 9 \<le> disk_free e"
      "\<forall>i. \<not> signal_at e i" "\<forall>i b. \<not> worker_fault e i b"
  proof -
    have "?N * ENTRY_LENGTH cfg \<le> disk_free e" using that(2) by (simp add: assms(1))
    with assms(1,2,4) that(1) show ?thesis using that(3,4) by (rule job_quiet_succeeds(1))
  qed
  show ?thesis unfolding assms(1) using a b len dec by blast
qed

theorem published_file_content_witness:
  "ENTRY_LENGTH cfg20 = 9 \<and> 0 < TOTAL_ENTRIES cfg20 \<and> TOTAL_ENTRIES cfg20 \<le> 10 ^ 8
   \<and> 0 < CHUNK_SIZE cfg20
   \<and> (dir_exists fresh \<or> \<not> mkdir_fails quiet)
   \<and> TOTAL_ENTRIES cfg20 * ENTRY_LENGTH cfg20 \<le> disk_free quiet
   \<and> (\<forall>i. \<not> signal_at quiet i) \<and> (\<forall>i b. \<not> worker_fault quiet i b)
   \<and> fst (generate_full_8digit_combinations cfg20 quiet fresh) = Inr True
   \<and> output_file (snd (generate_full_8digit_combinations cfg20 quiet fresh))
       = Some (''00000000\<newline>00000001\<newline>00000002\<newline>00000003\<newline>00000004\<newline>''
          @ ''00000005\<newline>00000006\<newline>00000007\<newline>00000008\<newline>00000009\<newline>''
          @ ''00000010\<newline>00000011\<newline>00000012\<newline>00000013\<newline>00000014\<newline>''
          @ ''00000015\<newline>00000016\<newline>00000017\<newline>00000018\<newline>00000019\<newline>'')"
proof -
  have h: "ENTRY_LENGTH cfg20 = 9" "0 < TOTAL_ENTRIES cfg20" "TOTAL_ENTRIES cfg20 \<le> 10 ^ 8"
    "0 < CHUNK_SIZE cfg20"
    by (simp_all add: cfg20_def)
  have q: "dir_exists fresh \<or> \<not> mkdir_fails quiet"
    "TOTAL_ENTRIES cfg20 * ENTRY_LENGTH cfg20 \<le> disk_free quiet"
    "\<forall>i. \<not> signal_at quiet i" "\<forall>i b. \<not> worker_fault quiet i b"
    by (simp_all add: cfg20_def quiet_def fresh_def)
  note inst = published_file_content [OF h, of quiet fresh]
  have ok: "fst (generate_full_8digit_combinations cfg20 quiet fresh) = Inr True"
    using inst q by blast
  then have "output_file (snd (generate_full_8digit_combinations cfg20 quiet fresh))
      = Some (concat (map (spec_record (ENTRY_LENGTH cfg20)) [0..<TOTAL_ENTRIES cfg20]))"
    using inst by blast
  moreover have "concat (map (spec_record (ENTRY_LENGTH cfg20)) [0..<TOTAL_ENTRIES cfg20])
      = ''00000000\<newline>00000001\<newline>00000002\<newline>00000003\<newline>00000004\<newline>''
        @ ''00000005\<newline>00000006\<newline>00000007\<newline>00000008\<newline>00000009\<newline>''
        @ ''00000010\<newline>00000011\<newline>00000012\<newline>00000013\<newline>00000014\<newline>''
        @ ''00000015\<newline>00000016\<newline>00000017\<newline>00000018\<newline>00000019\<newline>''"
  proof -
    have "[0..<20] = [0, 1, 2, 3, 4, 5, 6, 7, 8, 9, 10, 11, 12, 13, 14, 15, 16, 17, 18, 19::nat]"
      by code_simp
    then show ?thesis
      by (simp add: cfg20_def spec_record_def zfill_def dec_str.simps digit_char_simps
          replicate_numeral)
  qed
  ultimately show ?thesis using h q ok by simp
qed

text \<open>
  C1 as written ranges over every record width. With \<open>N = 1\<close>, \<open>W = 10\<close>, \<open>C = 1\<close>
  (the value 0 fits in 9 digits) the run returns \<open>True\<close> and publishes the 9-byte record
  \<open>00000000\<close>, newline, followed by one zero byte, where the claim expects the 10-byte
  record \<open>000000000\<close>, newline.
\<close>

theorem published_file_content_counterexample:
  "fst (generate_full_8digit_combinations cfg_w10 quiet fresh) = Inr True
   \<and> output_file (snd (generate_full_8digit_combinations cfg_w10 quiet fresh))
       = Some (''00000000\<newline>'' @ [CHR 0x00])
   \<and> concat (map (spec_record (ENTRY_LENGTH cfg_w10)) [0..<TOTAL_ENTRIES cfg_w10])
       = ''000000000\<newline>''
   \<and> output_file (snd (generate_full_8digit_combinations cfg_w10 quiet fresh))
       \<noteq> Some (concat (map (spec_record (ENTRY_LENGTH cfg_w10)) [0..<TOTAL_ENTRIES cfg_w10]))"
proof -
  have c: "chunks cfg_w10 = [(0, 1)]"
    by (simp add: chunks_def cfg_w10_def range_step.simps)
  have "job_loop_run cfg_w10 quiet =
      (case mm_assign (replicate (TOTAL_ENTRIES cfg_w10 * ENTRY_LENGTH cfg_w10) (CHR 0x00)) 0
              (format_batch (map word_of_nat [0..<1])) of
         Inl x \<Rightarrow> (Some x, \<lparr>mm = replicate (TOTAL_ENTRIES cfg_w10 * ENTRY_LENGTH cfg_w10) (CHR 0x00),
                             shutdown_flag = False, written = []\<rparr>)
       | Inr m \<Rightarrow> (None, \<lparr>mm = m, shutdown_flag = False, written = [(0, 9 * 1)]\<rparr>))"
    using c by (intro loop_one_chunk) (simp_all add: quiet_def)
  then have loop: "job_loop_run cfg_w10 quiet
      = (None, \<lparr>mm = ''00000000\<newline>'' @ [CHR 0x00], shutdown_flag = False, written = [(0, 9)]\<rparr>)"
    by (simp add: record_zero cfg_w10_def mm_assign_def replicate_numeral)
  have chk: "check_disk_space quiet (TOTAL_ENTRIES cfg_w10 * ENTRY_LENGTH cfg_w10) fresh
      = (None, fresh)"
    by (simp add: check_disk_space_def ensure_directory_exists_def quiet_def fresh_def cfg_w10_def)
  have nz: "TOTAL_ENTRIES cfg_w10 * ENTRY_LENGTH cfg_w10 \<noteq> 0" "CHUNK_SIZE cfg_w10 \<noteq> 0"
    by (simp_all add: cfg_w10_def)
  have co: "coordinator cfg_w10 quiet (enumerate 0 (chunks cfg_w10))
      \<lparr>mm = replicate (TOTAL_ENTRIES cfg_w10 * ENTRY_LENGTH cfg_w10) (CHR 0x00),
       shutdown_flag = False, written = []\<rparr>
      = (None, \<lparr>mm = ''00000000\<newline>'' @ [CHR 0x00], shutdown_flag = False, written = [(0, 9)]\<rparr>)"
    using loop by (simp add: job_loop_run_def)
  have r: "fst (generate_full_8digit_combinations cfg_w10 quiet fresh) = Inr True"
    using job_loop(1) [OF chk nz co] by simp
  have out: "output_file (snd (generate_full_8digit_combinations cfg_w10 quiet fresh))
      = Some (''00000000\<newline>'' @ [CHR 0x00])"
    using job_loop(3) [OF chk nz co] by simp
  have spec: "concat (map (spec_record (ENTRY_LENGTH cfg_w10)) [0..<TOTAL_ENTRIES cfg_w10])
      = ''000000000\<newline>''"
    by (simp add: cfg_w10_def spec_record_def zfill_def dec_str.simps digit_char_simps
        replicate_numeral)
  show ?thesis unfolding spec using r out by simp
qed

subsection \<open>The iterator hands the results over in the order of submission\<close>

lemma map_of_filter_key:
  "map_of (filter (\<lambda>p. fst p \<noteq> k) xs) j = (if j = k then None else map_of xs j)"
  by (induction xs) auto

lemma flush_inv:
  "imap_inv g fin it \<Longrightarrow> imap_inv g fin (flush it) \<and> index (flush it) \<notin> fin"
proof (induction it rule: flush.induct)
  case (1 it)
  show ?case
  proof (cases "map_of (unsorted it) (index it)")
    case None
    then have "index it \<notin> fin" using "1.prems" by (auto simp: imap_inv_def split: if_splits)
    then show ?thesis using None "1.prems" by (simp add: flush.simps [of it])
  next
    case (Some obj)
    define it' where "it' = it\<lparr>items := items it @ [obj], index := index it + 1,
        unsorted := filter (\<lambda>p. fst p \<noteq> index it) (unsorted it)\<rparr>"
    have obj: "obj = g (index it)" "index it \<in> fin"
      using Some "1.prems" by (auto simp: imap_inv_def split: if_splits)
    have inv': "imap_inv g fin it'"
      using "1.prems" obj
      by (auto simp: imap_inv_def it'_def map_of_filter_key less_Suc_eq)
    have "imap_inv g fin (flush it') \<and> index (flush it') \<notin> fin"
      using "1.IH" [OF Some] inv' unfolding it'_def by simp
    then show ?thesis using Some by (simp add: flush.simps [of it] it'_def)
  qed
qed

lemma imap_set_inv:
  assumes "imap_inv g fin it" "index it \<notin> fin" "i \<notin> fin"
  shows "imap_inv g (insert i fin) (imap_set it i (g i))
    \<and> index (imap_set it i (g i)) \<notin> insert i fin"
proof (cases "index it = i")
  case True
  define it' where "it' = it\<lparr>items := items it @ [g i], index := index it + 1\<rparr>"
  have ne: "j \<noteq> i" if "j \<in> fin" for j using that assms(3) by auto
  have "Suc i \<le> j" if "j \<in> fin" "i \<le> j" for j using that ne [of j] by simp
  then have "imap_inv g (insert i fin) it'"
    using assms True by (auto simp: imap_inv_def it'_def less_Suc_eq)
  then have "imap_inv g (insert i fin) (flush it') \<and> index (flush it') \<notin> insert i fin"
    by (rule flush_inv)
  then show ?thesis using True by (simp add: imap_set_def it'_def)
next
  case False
  have "index it < i"
  proof (rule ccontr)
    assume "\<not> index it < i"
    then have "i < index it" using False by simp
    then show False using assms(1,3) by (simp add: imap_inv_def)
  qed
  then show ?thesis
    using assms False by (auto simp: imap_inv_def imap_set_def map_of_filter_key)
qed

lemma imap_events_inv:
  assumes "distinct (map snd events)"
  shows "imap_inv g (snd ` set events)
      (foldl (\<lambda>it ev. imap_set it (snd ev) (g (snd ev)))
         \<lparr>items = [], index = 0, unsorted = []\<rparr> events)
    \<and> index (foldl (\<lambda>it ev. imap_set it (snd ev) (g (snd ev)))
         \<lparr>items = [], index = 0, unsorted = []\<rparr> events) \<notin> snd ` set events"
  using assms
proof (induction events rule: rev_induct)
  case Nil
  then show ?case by (simp add: imap_inv_def)
next
  case (snoc ev events)
  let ?it = "foldl (\<lambda>it ev. imap_set it (snd ev) (g (snd ev)))
      \<lparr>items = [], index = 0, unsorted = []\<rparr> events"
  have ih: "imap_inv g (snd ` set events) ?it" "index ?it \<notin> snd ` set events"
    using snoc by simp_all
  have new: "snd ev \<notin> snd ` set events" using snoc.prems by auto
  have "imap_inv g (insert (snd ev) (snd ` set events)) (imap_set ?it (snd ev) (g (snd ev)))
      \<and> index (imap_set ?it (snd ev) (g (snd ev))) \<notin> insert (snd ev) (snd ` set events)"
    using ih new by (rule imap_set_inv)
  then show ?case by simp
qed

text \<open>What the iterator has handed over is an initial segment of the results in the order
  of submission; when every task has finished, it is all of them.\<close>

lemma pool_imap_prefix:
  assumes "completions (length tasks) events"
  shows "pool_imap func tasks events
    = take (length (pool_imap func tasks events)) (map func tasks)"
proof -
  let ?it = "foldl (\<lambda>it ev. imap_set it (snd ev) (func (tasks ! snd ev)))
      \<lparr>items = [], index = 0, unsorted = []\<rparr> events"
  have d: "distinct (map snd events)" and b: "\<forall>ev \<in> set events. snd ev < length tasks"
    using assms by (simp_all add: completions_def list_all_iff)
  have inv: "imap_inv (\<lambda>i. func (tasks ! i)) (snd ` set events) ?it"
    using imap_events_inv [OF d, of "\<lambda>i. func (tasks ! i)"] by simp
  then have it: "items ?it = map (\<lambda>i. func (tasks ! i)) [0..<index ?it]"
    and fin: "\<forall>i < index ?it. i \<in> snd ` set events"
    by (simp_all add: imap_inv_def)
  have le: "index ?it \<le> length tasks"
  proof (rule ccontr)
    assume "\<not> index ?it \<le> length tasks"
    then have "length tasks \<in> snd ` set events" using fin by simp
    then show False using b by auto
  qed
  have "map (\<lambda>i. func (tasks ! i)) [0..<index ?it] = take (index ?it) (map func tasks)"
    using le by (intro nth_equalityI) simp_all
  then show ?thesis using it le by (simp add: pool_imap_def min_absorb2)
qed

lemma pool_imap_complete:
  assumes "completions (length tasks) events" "snd ` set events = {0..<length tasks}"
  shows "pool_imap func tasks events = map func tasks"
proof -
  let ?it = "foldl (\<lambda>it ev. imap_set it (snd ev) (func (tasks ! snd ev)))
      \<lparr>items = [], index = 0, unsorted = []\<rparr> events"
  have d: "distinct (map snd events)"
    using assms by (simp_all add: completions_def)
  have inv: "imap_inv (\<lambda>i. func (tasks ! i)) (snd ` set events) ?it"
    and out: "index ?it \<notin> snd ` set events"
    using imap_events_inv [OF d, of "\<lambda>i. func (tasks ! i)"] by simp_all
  have it: "items ?it = map (\<lambda>i. func (tasks ! i)) [0..<index ?it]"
    and fin: "\<forall>i < index ?it. i \<in> snd ` set events"
    using inv by (simp_all add: imap_inv_def)
  have "length tasks \<le> index ?it" using out assms(2) by simp
  moreover have "index ?it \<le> length tasks"
  proof (rule ccontr)
    assume "\<not> index ?it \<le> length tasks"
    then have "length tasks \<in> snd ` set events" using fin by simp
    then show False using assms(2) by simp
  qed
  ultimately have "index ?it = length tasks" by simp
  moreover have "map (\<lambda>i. func (tasks ! i)) [0..<length tasks] = map func tasks"
    by (intro nth_equalityI) simp_all
  ultimately have "items ?it = map func tasks"
    using it by simp
  then show ?thesis by (simp add: pool_imap_def)
qed

lemma coordinator_consume:
  "\<not> shutdown_flag st \<Longrightarrow>
   coordinator cfg e ts st = consume cfg e (map (\<lambda>t. (fst t, chunk_task e t)) ts) st"
proof (induction ts arbitrary: st)
  case Nil
  then show ?case by simp
next
  case (Cons t ts)
  obtain i c where t: "t = (i, c)" by (cases t)
  show ?case
    using Cons.prems
    by (auto simp: t chunk_task_def Let_def Cons.IH split: option.splits sum.splits)
qed

lemma enumerate_results:
  "enumerate n (map f (enumerate n xs)) = map (\<lambda>t. (fst t, f t)) (enumerate n xs)"
  by (induction xs arbitrary: n) simp_all

lemma job_loop_run_pool_eq:
  assumes "completions (length (chunks cfg)) events"
    "snd ` set events = {0..<length (chunks cfg)}"
  shows "job_loop_run_pool cfg e events = job_loop_run cfg e"
proof -
  have "pool_imap (chunk_task e) (enumerate 0 (chunks cfg)) events
      = map (chunk_task e) (enumerate 0 (chunks cfg))"
    using assms by (intro pool_imap_complete) simp_all
  then show ?thesis
    by (simp add: job_loop_run_pool_def job_loop_run_def enumerate_results coordinator_consume)
qed

lemma pool_imap_out_of_order:
  "pool_imap func [a, b, c, d] out_of_order = [func a, func b, func c, func d]"
  by (simp add: pool_imap_def out_of_order_def imap_set_def flush.simps)

subsection \<open>C4 and C10: where the coordinator writes\<close>

lemma loop_writes:
  assumes W: "ENTRY_LENGTH cfg = 9" and N: "0 < TOTAL_ENTRIES cfg" and C: "0 < CHUNK_SIZE cfg"
  shows "length (written (snd (job_loop_run cfg e))) \<le> length (chunks cfg)"
    and "fst (job_loop_run cfg e) = None \<Longrightarrow>
      length (written (snd (job_loop_run cfg e))) = length (chunks cfg)"
    and "i < length (written (snd (job_loop_run cfg e))) \<Longrightarrow>
      written (snd (job_loop_run cfg e)) ! i
        = (fst (chunks cfg ! i) * 9, (snd (chunks cfg ! i) - fst (chunks cfg ! i)) * 9)"
    and "fst (job_loop_run cfg e) \<noteq> Some IndexError"
proof -
  obtain n where n: "n \<le> length (chunks cfg)"
      "written (snd (job_loop_run cfg e))
        = map (\<lambda>i. (fst (chunks cfg ! i) * 9,
                    (snd (chunks cfg ! i) - fst (chunks cfg ! i)) * 9)) [0..<n]"
      "fst (job_loop_run cfg e) = None \<longrightarrow> n = length (chunks cfg)"
    and ne: "fst (job_loop_run cfg e) \<noteq> Some IndexError"
    using coordinator_run [OF W C N job_loop_run_collapse] by blast
  show "length (written (snd (job_loop_run cfg e))) \<le> length (chunks cfg)"
    using n(1) by (simp add: n(2))
  show "length (written (snd (job_loop_run cfg e))) = length (chunks cfg)"
    if "fst (job_loop_run cfg e) = None"
    using n(3) that by (simp add: n(2))
  show "written (snd (job_loop_run cfg e)) ! i
      = (fst (chunks cfg ! i) * 9, (snd (chunks cfg ! i) - fst (chunks cfg ! i)) * 9)"
    if "i < length (written (snd (job_loop_run cfg e)))"
    using that by (simp add: n(2))
  show "fst (job_loop_run cfg e) \<noteq> Some IndexError" by (rule ne)
qed

lemma chunk_nth:
  assumes "0 < CHUNK_SIZE cfg" "i < length (chunks cfg)"
  shows "chunks cfg ! i
    = (i * CHUNK_SIZE cfg, min ((i + 1) * CHUNK_SIZE cfg) (TOTAL_ENTRIES cfg))"
  using assms(2) unfolding chunks_closed [OF assms(1)] by simp

lemma chunk_ordered:
  assumes "0 < CHUNK_SIZE cfg" "i < j" "j < length (chunks cfg)"
  shows "snd (chunks cfg ! i) \<le> fst (chunks cfg ! j)"
proof -
  have i: "i < length (chunks cfg)" using assms(2,3) by simp
  have "Suc i * CHUNK_SIZE cfg \<le> j * CHUNK_SIZE cfg"
    using assms(2) by (intro mult_le_mono1) simp
  then show ?thesis
    by (simp add: chunk_nth [OF assms(1) i] chunk_nth [OF assms(1,3)])
qed

lemma slice_records:
  assumes "s \<le> t" "t \<le> p"
  shows "mm_slice (format_batch (map word_of_nat [0..<p]) @ z) (s * 9) (t * 9)
    = format_batch (map word_of_nat [s..<t])"
proof -
  have "[0..<p] = [0..<s] @ [s..<t] @ [t..<p]"
    using assms by (metis le0 le_Suc_ex upt_add_eq_append order_trans)
  then have split: "format_batch (map word_of_nat [0..<p])
      = format_batch (map word_of_nat [0..<s]) @ format_batch (map word_of_nat [s..<t])
        @ format_batch (map word_of_nat [t..<p])"
    by (simp add: format_batch_append)
  have l1: "length (format_batch (map word_of_nat [0..<s])) = s * 9"
    by (simp add: length_format_batch)
  have l2: "length (format_batch (map word_of_nat [s..<t])) = t * 9 - s * 9"
    using assms(1) by (simp add: length_format_batch diff_mult_distrib2 mult.commute)
  show ?thesis unfolding mm_slice_def split using l1 l2 by simp
qed

lemma slice_zeros:
  assumes "p \<le> s" "s \<le> t" "t \<le> n"
  shows "mm_slice (format_batch (map word_of_nat [0..<p]) @ replicate (9 * (n - p)) c) (s * 9) (t * 9)
    = replicate ((t - s) * 9) c"
proof -
  have l1: "length (format_batch (map word_of_nat [0..<p])) = p * 9"
    by (simp add: length_format_batch)
  have "min (t * 9 - s * 9) (9 * (n - p) - (s * 9 - p * 9)) = (t - s) * 9"
    using assms by (simp add: diff_mult_distrib)
  then show ?thesis unfolding mm_slice_def using l1 assms by simp
qed

text \<open>
  The mapping during the loop, for record width 9. Before chunk \<open>j\<close> the mapping holds
  the records of the values below \<open>p = min (j * C) N\<close> and \<open>9 * (N - p)\<close> zero bytes
  after them; the number of slice assignments counts the chunks consumed, and each consumed
  result is the buffer of its chunk.
\<close>

lemma coordinator_mapping:
  fixes cfg :: config and e :: env
  assumes W: "ENTRY_LENGTH cfg = 9" and C: "0 < CHUNK_SIZE cfg" and N: "0 < TOTAL_ENTRIES cfg"
    and k: "k = (TOTAL_ENTRIES cfg + CHUNK_SIZE cfg - 1) div CHUNK_SIZE cfg"
    and h: "h = (\<lambda>i. (i, i * CHUNK_SIZE cfg,
                min ((i + 1) * CHUNK_SIZE cfg) (TOTAL_ENTRIES cfg)))"
  shows "j \<le> k \<Longrightarrow> \<not> shutdown_flag st \<Longrightarrow> length (written st) = j \<Longrightarrow>
     mm st = format_batch (map word_of_nat [0..<min (j * CHUNK_SIZE cfg) (TOTAL_ENTRIES cfg)])
       @ replicate (9 * (TOTAL_ENTRIES cfg - min (j * CHUNK_SIZE cfg) (TOTAL_ENTRIES cfg)))
           (CHR 0x00) \<Longrightarrow>
     coordinator cfg e (map h [j..<k]) st = (r, st') \<Longrightarrow>
     j \<le> length (written st') \<and> length (written st') \<le> k
     \<and> mm st' = format_batch (map word_of_nat
           [0..<min (length (written st') * CHUNK_SIZE cfg) (TOTAL_ENTRIES cfg)])
         @ replicate (9 * (TOTAL_ENTRIES cfg
             - min (length (written st') * CHUNK_SIZE cfg) (TOTAL_ENTRIES cfg))) (CHR 0x00)
     \<and> (\<forall>i. j \<le> i \<and> i < length (written st') \<longrightarrow>
           chunk_task e (h i) = Some (format_batch (map word_of_nat
             [i * CHUNK_SIZE cfg..<min ((i + 1) * CHUNK_SIZE cfg) (TOTAL_ENTRIES cfg)])))"
proof (induction "k - j" arbitrary: j st)
  case 0
  then have jk: "j = k" by simp
  have res: "r = None" "st' = st" using "0.prems"(5) by (simp_all add: jk)
  have "\<not> (k \<le> i \<and> i < k)" for i by simp
  then show ?case using "0.prems"(3,4) unfolding res jk by blast
next
  case (Suc d)
  define s where "s = j * CHUNK_SIZE cfg"
  define t where "t = min ((j + 1) * CHUNK_SIZE cfg) (TOTAL_ENTRIES cfg)"
  have jk: "j < k" using Suc.hyps(2) by simp
  have sN: "s < TOTAL_ENTRIES cfg" unfolding s_def using jk N unfolding k by (rule below_ceil)
  have st: "s < t" using sN C by (simp add: s_def t_def)
  have tN: "t \<le> TOTAL_ENTRIES cfg" by (simp add: t_def)
  have smin: "min (j * CHUNK_SIZE cfg) (TOTAL_ENTRIES cfg) = s" using sN by (simp add: s_def)
  have tmin: "min (Suc j * CHUNK_SIZE cfg) (TOTAL_ENTRIES cfg) = t" by (simp add: t_def)
  have list: "map h [j..<k] = (j, s, t) # map h [Suc j..<k]"
    using jk by (simp add: upt_conv_Cons h s_def t_def)
  have run: "coordinator cfg e ((j, s, t) # map h [Suc j..<k]) st = (r, st')"
    using Suc.prems(5) by (simp add: list)
  have flag: "(\<lambda>r. shutdown_flag st) = (\<lambda>r. False)" using Suc.prems(2) by simp
  have stay: ?case if same: "written st' = written st" "mm st' = mm st"
  proof -
    have "\<not> (j \<le> i \<and> i < j)" for i by simp
    then show ?thesis using Suc.prems(1,3,4) unfolding same Suc.prems(3) by blast
  qed
  show ?case
  proof (cases "signal_at e j")
    case True
    then have "written st' = written st" "mm st' = mm st"
      using run by (auto simp: Let_def)
    then show ?thesis by (rule stay)
  next
    case nosig: False
    show ?thesis
    proof (cases "fst (generate_chunk (\<lambda>r. shutdown_flag st) (worker_fault e j) (s, t))")
      case None
      then have "written st' = written st" "mm st' = mm st"
        using run nosig by (auto simp: Let_def)
      then show ?thesis by (rule stay)
    next
      case (Some data)
      have data: "data = format_batch (map word_of_nat [s..<t])"
        using st Some by (rule generate_chunk_result)
      have task: "chunk_task e (h j) = Some (format_batch (map word_of_nat [s..<t]))"
        using Some by (simp add: chunk_task_def h s_def t_def flag data)
      have len: "length data = 9 * (t - s)" by (simp add: data length_format_batch)
      have pos: "j * CHUNK_SIZE cfg * ENTRY_LENGTH cfg = 9 * s" by (simp add: W s_def)
      have before: "mm st = format_batch (map word_of_nat [0..<s])
          @ replicate (9 * (TOTAL_ENTRIES cfg - s)) (CHR 0x00)"
        using Suc.prems(4) unfolding smin .
      have lmm: "length (mm st) = 9 * TOTAL_ENTRIES cfg"
        using sN by (simp add: before length_format_batch)
      have fit: "9 * s + length data \<le> length (mm st)"
        using st tN by (simp add: len lmm)
      define m2 where "m2 = take (9 * s) (mm st) @ data @ drop (9 * s + length data) (mm st)"
      define st2 where "st2 = st\<lparr>mm := m2, written := written st @ [(9 * s, length data)]\<rparr>"
      have assign: "mm_assign (mm st) (9 * s) data = Inr m2"
        unfolding m2_def using fit by (rule mm_assign_inside)
      have next_run: "coordinator cfg e (map h [Suc j..<k]) st2 = (r, st')"
        using run nosig Some assign by (simp add: Let_def pos st2_def)
      have tk: "take (9 * s) (mm st) = format_batch (map word_of_nat [0..<s])"
        by (simp add: before length_format_batch)
      have "9 * s + length data = 9 * s + 9 * (t - s)" by (simp add: len)
      also have "\<dots> = 9 * s + (9 * t - 9 * s)" by (simp add: diff_mult_distrib2)
      finally have off: "9 * s + length data = 9 * s + (9 * t - 9 * s)" .
      have dr: "drop (9 * s + length data) (mm st)
          = replicate (9 * (TOTAL_ENTRIES cfg - t)) (CHR 0x00)"
        unfolding off before using st tN
        by (simp add: length_format_batch diff_mult_distrib2)
      have "m2 = format_batch (map word_of_nat [0..<s]) @ data
          @ replicate (9 * (TOTAL_ENTRIES cfg - t)) (CHR 0x00)"
        unfolding m2_def tk dr ..
      then have "m2 = format_batch (map word_of_nat [0..<s])
          @ format_batch (map word_of_nat [s..<t])
          @ replicate (9 * (TOTAL_ENTRIES cfg - t)) (CHR 0x00)"
        unfolding data .
      also have "\<dots> = format_batch (map word_of_nat [0..<t])
          @ replicate (9 * (TOTAL_ENTRIES cfg - t)) (CHR 0x00)"
        using st format_batch_upt [of s t] by simp
      finally have m2: "m2 = format_batch (map word_of_nat [0..<t])
          @ replicate (9 * (TOTAL_ENTRIES cfg - t)) (CHR 0x00)" .
      have i1: "Suc j \<le> k" using jk by simp
      have i2: "\<not> shutdown_flag st2" using Suc.prems(2) by (simp add: st2_def)
      have i3: "length (written st2) = Suc j" using Suc.prems(3) by (simp add: st2_def)
      have i4: "mm st2 = format_batch (map word_of_nat
            [0..<min (Suc j * CHUNK_SIZE cfg) (TOTAL_ENTRIES cfg)])
          @ replicate (9 * (TOTAL_ENTRIES cfg
              - min (Suc j * CHUNK_SIZE cfg) (TOTAL_ENTRIES cfg))) (CHR 0x00)"
        unfolding tmin using m2 by (simp add: st2_def)
      have d: "d = k - Suc j" using Suc.hyps(2) by simp
      have ih: "Suc j \<le> length (written st') \<and> length (written st') \<le> k
          \<and> mm st' = format_batch (map word_of_nat
                [0..<min (length (written st') * CHUNK_SIZE cfg) (TOTAL_ENTRIES cfg)])
              @ replicate (9 * (TOTAL_ENTRIES cfg
                  - min (length (written st') * CHUNK_SIZE cfg) (TOTAL_ENTRIES cfg))) (CHR 0x00)
          \<and> (\<forall>i. Suc j \<le> i \<and> i < length (written st') \<longrightarrow>
                chunk_task e (h i) = Some (format_batch (map word_of_nat
                  [i * CHUNK_SIZE cfg..<min ((i + 1) * CHUNK_SIZE cfg) (TOTAL_ENTRIES cfg)])))"
        using d i1 i2 i3 i4 next_run by (rule Suc.hyps(1))
      have each: "chunk_task e (h i) = Some (format_batch (map word_of_nat
            [i * CHUNK_SIZE cfg..<min ((i + 1) * CHUNK_SIZE cfg) (TOTAL_ENTRIES cfg)]))"
        if "j \<le> i" "i < length (written st')" for i
      proof (cases "i = j")
        case True
        then show ?thesis using task by (simp add: s_def t_def)
      next
        case False
        then have "Suc j \<le> i" using that(1) by simp
        then show ?thesis using ih that(2) by blast
      qed
      have "j \<le> length (written st')" using ih by simp
      then show ?thesis using ih each by blast
    qed
  qed
qed

lemma loop_mapping:
  assumes W: "ENTRY_LENGTH cfg = 9" and N: "0 < TOTAL_ENTRIES cfg" and C: "0 < CHUNK_SIZE cfg"
  shows "mm (snd (job_loop_run cfg e))
      = format_batch (map word_of_nat
          [0..<min (length (written (snd (job_loop_run cfg e))) * CHUNK_SIZE cfg)
                (TOTAL_ENTRIES cfg)])
        @ replicate (9 * (TOTAL_ENTRIES cfg
            - min (length (written (snd (job_loop_run cfg e))) * CHUNK_SIZE cfg)
                (TOTAL_ENTRIES cfg))) (CHR 0x00)"
    and "i < length (written (snd (job_loop_run cfg e))) \<Longrightarrow>
      chunk_task e (i, chunks cfg ! i)
        = Some (format_batch (map word_of_nat [fst (chunks cfg ! i)..<snd (chunks cfg ! i)]))"
proof -
  define k where "k = (TOTAL_ENTRIES cfg + CHUNK_SIZE cfg - 1) div CHUNK_SIZE cfg"
  define h where "h = (\<lambda>i. (i, i * CHUNK_SIZE cfg,
      min ((i + 1) * CHUNK_SIZE cfg) (TOTAL_ENTRIES cfg)))"
  define st where "st = \<lparr>mm = replicate (TOTAL_ENTRIES cfg * ENTRY_LENGTH cfg) (CHR 0x00),
      shutdown_flag = False, written = []\<rparr>"
  let ?st' = "snd (job_loop_run cfg e)"
  have len: "length (chunks cfg) = k" by (simp add: chunks_closed [OF C] k_def)
  have a1: "0 \<le> k" by simp
  have a2: "\<not> shutdown_flag st" by (simp add: st_def)
  have a3: "length (written st) = 0" by (simp add: st_def)
  have a4: "mm st = format_batch (map word_of_nat
        [0..<min (0 * CHUNK_SIZE cfg) (TOTAL_ENTRIES cfg)])
      @ replicate (9 * (TOTAL_ENTRIES cfg - min (0 * CHUNK_SIZE cfg) (TOTAL_ENTRIES cfg)))
          (CHR 0x00)"
    by (simp add: st_def W format_batch_Nil mult.commute)
  have a5: "coordinator cfg e (map h [0..<k]) st
      = (fst (job_loop_run cfg e), snd (job_loop_run cfg e))"
    unfolding job_loop_run_def enumerate_chunks [OF C] h_def k_def st_def by simp
  note inv = coordinator_mapping [OF W C N k_def h_def a1 a2 a3 a4 a5]
  show "mm ?st' = format_batch (map word_of_nat
        [0..<min (length (written ?st') * CHUNK_SIZE cfg) (TOTAL_ENTRIES cfg)])
      @ replicate (9 * (TOTAL_ENTRIES cfg
          - min (length (written ?st') * CHUNK_SIZE cfg) (TOTAL_ENTRIES cfg))) (CHR 0x00)"
    using inv by blast
  show "chunk_task e (i, chunks cfg ! i)
      = Some (format_batch (map word_of_nat [fst (chunks cfg ! i)..<snd (chunks cfg ! i)]))"
    if i: "i < length (written ?st')"
  proof -
    have "i < length (chunks cfg)" using i inv len by simp
    then have c: "chunks cfg ! i
        = (i * CHUNK_SIZE cfg, min ((i + 1) * CHUNK_SIZE cfg) (TOTAL_ENTRIES cfg))"
      using C by (intro chunk_nth)
    have "chunk_task e (h i) = Some (format_batch (map word_of_nat
        [i * CHUNK_SIZE cfg..<min ((i + 1) * CHUNK_SIZE cfg) (TOTAL_ENTRIES cfg)]))"
      using inv i by blast
    then show ?thesis by (simp add: c h_def)
  qed
qed

text \<open>
  C4, as the code has it. The buffers \<^verbatim>\<open>generate_chunk\<close> returns have 9 bytes per value,
  so the statement is for record width \<open>W = 9\<close>, with \<open>N > 0\<close> and \<open>C > 0\<close>.
  Let the workers finish the tasks in any order and let any worker run any task (the
  completion events \<open>events\<close>). What the pool's iterator has handed over is always an
  initial segment of the results in the order of submission, so the \<open>i\<close>-th result the loop
  consumes is the result of the \<open>i\<close>-th chunk; once all tasks have finished, the loop fed
  by the iterator is the loop over the chunk list. The loop applies one slice assignment
  per consumed result, all of them when it ends without an exception. The \<open>i\<close>-th
  assignment starts at byte \<open>i * C * W\<close>, which is \<open>chunks[i].start * W\<close>, and has the length
  \<open>(end - start) * W\<close> of chunk \<open>i\<close>; the result consumed for chunk \<open>i\<close> is the buffer with
  the records of \<open>start, \<dots>, end - 1\<close>, and when the loop is left the bytes
  \<open>[start * W, end * W)\<close> of the mapping are that buffer. The byte range of a chunk whose
  result was not consumed holds the zero bytes of the preallocated file. The starting
  offsets are pairwise different and the byte ranges of different chunks are disjoint: no
  range is written twice. The worker \<^verbatim>\<open>generate_chunk\<close> only returns bytes; every write
  is the coordinator's.
\<close>

theorem results_written_in_chunk_order:
  assumes "ENTRY_LENGTH cfg = 9" and "0 < TOTAL_ENTRIES cfg" and "0 < CHUNK_SIZE cfg"
    and "completions (length (chunks cfg)) events"
  shows "pool_imap (chunk_task e) (enumerate 0 (chunks cfg)) events
      = take (length (pool_imap (chunk_task e) (enumerate 0 (chunks cfg)) events))
          (map (chunk_task e) (enumerate 0 (chunks cfg)))
    \<and> (snd ` set events = {0..<length (chunks cfg)} \<longrightarrow>
          pool_imap (chunk_task e) (enumerate 0 (chunks cfg)) events
            = map (chunk_task e) (enumerate 0 (chunks cfg))
          \<and> job_loop_run_pool cfg e events = job_loop_run cfg e)
    \<and> length (written (snd (job_loop_run cfg e))) \<le> length (chunks cfg)
    \<and> (fst (job_loop_run cfg e) = None \<longrightarrow>
          length (written (snd (job_loop_run cfg e))) = length (chunks cfg))
    \<and> (\<forall>i < length (written (snd (job_loop_run cfg e))).
          written (snd (job_loop_run cfg e)) ! i
            = (i * CHUNK_SIZE cfg * ENTRY_LENGTH cfg,
               (snd (chunks cfg ! i) - fst (chunks cfg ! i)) * ENTRY_LENGTH cfg)
          \<and> i * CHUNK_SIZE cfg * ENTRY_LENGTH cfg = fst (chunks cfg ! i) * ENTRY_LENGTH cfg
          \<and> chunk_task e (i, chunks cfg ! i)
              = Some (format_batch (map word_of_nat [fst (chunks cfg ! i)..<snd (chunks cfg ! i)]))
          \<and> mm_slice (mm (snd (job_loop_run cfg e))) (fst (chunks cfg ! i) * ENTRY_LENGTH cfg)
                (snd (chunks cfg ! i) * ENTRY_LENGTH cfg)
              = format_batch (map word_of_nat [fst (chunks cfg ! i)..<snd (chunks cfg ! i)]))
    \<and> (\<forall>i. length (written (snd (job_loop_run cfg e))) \<le> i \<and> i < length (chunks cfg) \<longrightarrow>
          mm_slice (mm (snd (job_loop_run cfg e))) (fst (chunks cfg ! i) * ENTRY_LENGTH cfg)
              (snd (chunks cfg ! i) * ENTRY_LENGTH cfg)
            = replicate ((snd (chunks cfg ! i) - fst (chunks cfg ! i)) * ENTRY_LENGTH cfg)
                (CHR 0x00))
    \<and> distinct (map fst (written (snd (job_loop_run cfg e))))
    \<and> (\<forall>i j. i < j \<and> j < length (chunks cfg) \<longrightarrow>
          {fst (chunks cfg ! i) * ENTRY_LENGTH cfg..<snd (chunks cfg ! i) * ENTRY_LENGTH cfg}
          \<inter> {fst (chunks cfg ! j) * ENTRY_LENGTH cfg..<snd (chunks cfg ! j) * ENTRY_LENGTH cfg}
          = {})"
proof -
  let ?st = "snd (job_loop_run cfg e)"
  let ?ws = "written ?st"
  let ?tasks = "enumerate 0 (chunks cfg)"
  let ?p = "min (length ?ws * CHUNK_SIZE cfg) (TOTAL_ENTRIES cfg)"
  note W = assms(1) and N = assms(2) and C = assms(3)
  note lw = loop_writes [OF W N C, where e = e]
  note lm = loop_mapping [OF W N C, where e = e]
  have ev: "completions (length ?tasks) events" using assms(4) by simp
  have A: "pool_imap (chunk_task e) ?tasks events
      = take (length (pool_imap (chunk_task e) ?tasks events)) (map (chunk_task e) ?tasks)"
    using ev by (rule pool_imap_prefix)
  have B: "pool_imap (chunk_task e) ?tasks events = map (chunk_task e) ?tasks
      \<and> job_loop_run_pool cfg e events = job_loop_run cfg e"
    if all: "snd ` set events = {0..<length (chunks cfg)}"
  proof -
    have "snd ` set events = {0..<length ?tasks}" using all by simp
    then have "pool_imap (chunk_task e) ?tasks events = map (chunk_task e) ?tasks"
      using ev by (intro pool_imap_complete)
    then show ?thesis using job_loop_run_pool_eq [OF assms(4) all] by simp
  qed
  have start: "fst (chunks cfg ! i) = i * CHUNK_SIZE cfg" if "i < length (chunks cfg)" for i
    by (simp add: chunk_nth [OF C that])
  have stop: "snd (chunks cfg ! i) = min ((i + 1) * CHUNK_SIZE cfg) (TOTAL_ENTRIES cfg)"
    if "i < length (chunks cfg)" for i
    by (simp add: chunk_nth [OF C that])
  have inside: "i * CHUNK_SIZE cfg < TOTAL_ENTRIES cfg" if "i < length (chunks cfg)" for i
  proof -
    have "i < (TOTAL_ENTRIES cfg + CHUNK_SIZE cfg - 1) div CHUNK_SIZE cfg"
      using that by (simp add: chunks_closed [OF C])
    then show ?thesis using N by (rule below_ceil)
  qed
  have nonempty: "fst (chunks cfg ! i) < snd (chunks cfg ! i)" if "i < length (chunks cfg)" for i
    using inside [OF that] C by (simp add: start [OF that] stop [OF that])
  have bounded: "snd (chunks cfg ! i) \<le> TOTAL_ENTRIES cfg" if "i < length (chunks cfg)" for i
    by (simp add: stop [OF that])
  have consumed: "?ws ! i = (i * CHUNK_SIZE cfg * ENTRY_LENGTH cfg,
        (snd (chunks cfg ! i) - fst (chunks cfg ! i)) * ENTRY_LENGTH cfg)
      \<and> i * CHUNK_SIZE cfg * ENTRY_LENGTH cfg = fst (chunks cfg ! i) * ENTRY_LENGTH cfg
      \<and> chunk_task e (i, chunks cfg ! i)
          = Some (format_batch (map word_of_nat [fst (chunks cfg ! i)..<snd (chunks cfg ! i)]))
      \<and> mm_slice (mm ?st) (fst (chunks cfg ! i) * ENTRY_LENGTH cfg)
            (snd (chunks cfg ! i) * ENTRY_LENGTH cfg)
          = format_batch (map word_of_nat [fst (chunks cfg ! i)..<snd (chunks cfg ! i)])"
    if i: "i < length ?ws" for i
  proof -
    have il: "i < length (chunks cfg)" using i lw(1) by simp
    have "(i + 1) * CHUNK_SIZE cfg \<le> length ?ws * CHUNK_SIZE cfg"
      using i by (intro mult_le_mono1) simp
    then have le: "snd (chunks cfg ! i) \<le> ?p"
      unfolding stop [OF il] by (simp add: min_le_iff_disj)
    have "mm_slice (format_batch (map word_of_nat [0..<?p])
          @ replicate (9 * (TOTAL_ENTRIES cfg - ?p)) (CHR 0x00))
          (fst (chunks cfg ! i) * 9) (snd (chunks cfg ! i) * 9)
        = format_batch (map word_of_nat [fst (chunks cfg ! i)..<snd (chunks cfg ! i)])"
      using nonempty [OF il] le by (intro slice_records) simp_all
    then have sl: "mm_slice (mm ?st) (fst (chunks cfg ! i) * 9) (snd (chunks cfg ! i) * 9)
        = format_batch (map word_of_nat [fst (chunks cfg ! i)..<snd (chunks cfg ! i)])"
      using lm(1) by simp
    show ?thesis
      using lw(3) [OF i] lm(2) [OF i] sl start [OF il] by (simp add: W)
  qed
  have untouched: "mm_slice (mm ?st) (fst (chunks cfg ! i) * ENTRY_LENGTH cfg)
        (snd (chunks cfg ! i) * ENTRY_LENGTH cfg)
      = replicate ((snd (chunks cfg ! i) - fst (chunks cfg ! i)) * ENTRY_LENGTH cfg) (CHR 0x00)"
    if i: "length ?ws \<le> i" "i < length (chunks cfg)" for i
  proof -
    have "length ?ws * CHUNK_SIZE cfg \<le> i * CHUNK_SIZE cfg"
      using i(1) by (intro mult_le_mono1)
    then have le: "?p \<le> fst (chunks cfg ! i)"
      unfolding start [OF i(2)] by (simp add: min_le_iff_disj)
    have "mm_slice (format_batch (map word_of_nat [0..<?p])
          @ replicate (9 * (TOTAL_ENTRIES cfg - ?p)) (CHR 0x00))
          (fst (chunks cfg ! i) * 9) (snd (chunks cfg ! i) * 9)
        = replicate ((snd (chunks cfg ! i) - fst (chunks cfg ! i)) * 9) (CHR 0x00)"
      using le nonempty [OF i(2)] bounded [OF i(2)] by (intro slice_zeros) simp_all
    then show ?thesis using lm(1) by (simp add: W)
  qed
  have offs: "map fst ?ws = map (\<lambda>i. i * CHUNK_SIZE cfg * 9) [0..<length ?ws]"
  proof (rule nth_equalityI)
    show "length (map fst ?ws) = length (map (\<lambda>i. i * CHUNK_SIZE cfg * 9) [0..<length ?ws])"
      by simp
  next
    fix i assume "i < length (map fst ?ws)"
    then have i: "i < length ?ws" by simp
    show "map fst ?ws ! i = map (\<lambda>i. i * CHUNK_SIZE cfg * 9) [0..<length ?ws] ! i"
      using consumed [OF i] i by (simp add: W)
  qed
  have "inj_on (\<lambda>i. i * CHUNK_SIZE cfg * 9) (set [0..<length ?ws])"
    using C by (simp add: inj_on_def)
  then have dist: "distinct (map fst ?ws)"
    unfolding offs by (simp add: distinct_map)
  have disj: "{fst (chunks cfg ! i) * ENTRY_LENGTH cfg..<snd (chunks cfg ! i) * ENTRY_LENGTH cfg}
      \<inter> {fst (chunks cfg ! j) * ENTRY_LENGTH cfg..<snd (chunks cfg ! j) * ENTRY_LENGTH cfg} = {}"
    if "i < j" "j < length (chunks cfg)" for i j
  proof -
    have "snd (chunks cfg ! i) * 9 \<le> fst (chunks cfg ! j) * 9"
      using chunk_ordered [OF C that] by simp
    then show ?thesis by (auto simp: W)
  qed
  show ?thesis using A B lw(1,2) consumed untouched dist disj by blast
qed

lemma quiet_task:
  "start < stop \<Longrightarrow>
   fst (generate_chunk (\<lambda>r. False) (worker_fault quiet i) (start, stop))
     = Some (format_batch (map word_of_nat [start..<stop]))"
  by (intro generate_chunk_runs) (simp_all add: quiet_def)

lemma quiet_signal: "signal_at quiet i = False"
  by (simp add: quiet_def)

lemma record_values:
  "format_batch [1] = ''00000001\<newline>''"
  "format_batch [18, 19] = ''00000018\<newline>00000019\<newline>''"
  by (simp_all add: format_batch_def format_record_def astype_U8_def zfill_def dec_str.simps
      digit_char_simps replicate_numeral)

lemma chunks_cfg_w5x3: "chunks cfg_w5x3 = [(0, 1), (1, 2), (2, 3)]"
  by code_simp

theorem results_written_in_chunk_order_witness:
  "ENTRY_LENGTH cfg20 = 9 \<and> 0 < TOTAL_ENTRIES cfg20 \<and> 0 < CHUNK_SIZE cfg20
   \<and> completions (length (chunks cfg20)) out_of_order
   \<and> snd ` set out_of_order = {0..<length (chunks cfg20)}
   \<and> job_loop_run_pool cfg20 quiet out_of_order = job_loop_run cfg20 quiet
   \<and> written (snd (job_loop_run cfg20 quiet)) = [(0, 54), (54, 54), (108, 54), (162, 18)]
   \<and> mm_slice (mm (snd (job_loop_run cfg20 quiet))) 162 180
       = ''00000018\<newline>00000019\<newline>''"
proof -
  have h: "ENTRY_LENGTH cfg20 = 9" "0 < TOTAL_ENTRIES cfg20" "0 < CHUNK_SIZE cfg20"
    by (simp_all add: cfg20_def)
  have c: "chunks cfg20 = [(0, 6), (6, 12), (12, 18), (18, 20)]" by code_simp
  have ev: "completions (length (chunks cfg20)) out_of_order"
    by (simp add: c completions_def out_of_order_def)
  have all: "snd ` set out_of_order = {0..<length (chunks cfg20)}"
    by (auto simp: c out_of_order_def)
  have ok: "fst (job_loop_run cfg20 quiet) = None"
    using coordinator_run [OF h(1,3,2) job_loop_run_collapse, of quiet]
    by (simp add: quiet_def)
  note inst = results_written_in_chunk_order [OF h ev, of quiet]
  have same: "job_loop_run_pool cfg20 quiet out_of_order = job_loop_run cfg20 quiet"
    using inst all by blast
  have len: "length (written (snd (job_loop_run cfg20 quiet))) = 4"
    using inst ok by (simp add: c)
  have each: "\<forall>i < 4. written (snd (job_loop_run cfg20 quiet)) ! i
        = (i * CHUNK_SIZE cfg20 * ENTRY_LENGTH cfg20,
           (snd (chunks cfg20 ! i) - fst (chunks cfg20 ! i)) * ENTRY_LENGTH cfg20)
      \<and> mm_slice (mm (snd (job_loop_run cfg20 quiet))) (fst (chunks cfg20 ! i) * ENTRY_LENGTH cfg20)
            (snd (chunks cfg20 ! i) * ENTRY_LENGTH cfg20)
          = format_batch (map word_of_nat [fst (chunks cfg20 ! i)..<snd (chunks cfg20 ! i)])"
    using inst unfolding len by blast
  have ws: "written (snd (job_loop_run cfg20 quiet)) = [(0, 54), (54, 54), (108, 54), (162, 18)]"
  proof (rule nth_equalityI)
    show "length (written (snd (job_loop_run cfg20 quiet)))
        = length [(0, 54), (54, 54), (108, 54), (162, 18) :: nat \<times> nat]"
      by (simp add: len)
  next
    fix i assume "i < length (written (snd (job_loop_run cfg20 quiet)))"
    then have "i < 4" by (simp add: len)
    then have "i = 0 \<or> i = 1 \<or> i = 2 \<or> i = 3" by linarith
    then show "written (snd (job_loop_run cfg20 quiet)) ! i
        = [(0, 54), (54, 54), (108, 54), (162, 18)] ! i"
      using each unfolding c by (auto simp: cfg20_def)
  qed
  have "mm_slice (mm (snd (job_loop_run cfg20 quiet))) (18 * 9) (20 * 9)
      = format_batch (map word_of_nat [18..<20])"
    using each [rule_format, of 3] unfolding c by (simp add: cfg20_def)
  then have sl: "mm_slice (mm (snd (job_loop_run cfg20 quiet))) 162 180
      = ''00000018\<newline>00000019\<newline>''"
    by (simp add: record_values)
  show ?thesis using h ev all same ws sl by blast
qed

text \<open>
  C4 as written ranges over every record width. With \<open>N = 3\<close>, \<open>W = 5\<close>, \<open>C = 1\<close> the
  chunks have the byte ranges \<open>[0, 5)\<close>, \<open>[5, 10)\<close> and \<open>[10, 15)\<close>, and every result has
  9 bytes. The first result is written to \<open>[0, 9)\<close> and the second to \<open>[5, 14)\<close>: byte 7,
  in the range of chunk 1, is written twice, and the record of the value 0 is cut. The
  third assignment raises \<^verbatim>\<open>IndexError\<close>.
\<close>

theorem results_written_in_chunk_order_counterexample:
  "chunks cfg_w5x3 = [(0, 1), (1, 2), (2, 3)]
   \<and> written (snd (job_loop_run cfg_w5x3 quiet)) = [(0, 9), (5, 9)]
   \<and> 7 \<in> {fst (chunks cfg_w5x3 ! 1) * ENTRY_LENGTH cfg_w5x3
             ..<snd (chunks cfg_w5x3 ! 1) * ENTRY_LENGTH cfg_w5x3}
   \<and> 7 \<in> {fst (written (snd (job_loop_run cfg_w5x3 quiet)) ! 0)
             ..<fst (written (snd (job_loop_run cfg_w5x3 quiet)) ! 0)
                + snd (written (snd (job_loop_run cfg_w5x3 quiet)) ! 0)}
   \<and> 7 \<in> {fst (written (snd (job_loop_run cfg_w5x3 quiet)) ! 1)
             ..<fst (written (snd (job_loop_run cfg_w5x3 quiet)) ! 1)
                + snd (written (snd (job_loop_run cfg_w5x3 quiet)) ! 1)}
   \<and> mm (snd (job_loop_run cfg_w5x3 quiet)) = ''0000000000001\<newline>'' @ [CHR 0x00]
   \<and> fst (job_loop_run cfg_w5x3 quiet) = Some IndexError"
proof -
  note c = chunks_cfg_w5x3
  have r: "format_batch (map word_of_nat [Suc 0..<2]) = ''00000001\<newline>''"
    by (simp add: record_values upt_conv_Cons)
  have run: "job_loop_run cfg_w5x3 quiet
      = (Some IndexError,
         \<lparr>mm = ''0000000000001\<newline>'' @ [CHR 0x00], shutdown_flag = False,
          written = [(0, 9), (5, 9)]\<rparr>)"
    unfolding job_loop_run_def c
    by (simp add: enumerate_eq_zip quiet_signal quiet_task record_zero r Let_def cfg_w5x3_def mm_assign_def
        replicate_numeral length_format_batch)
  show ?thesis unfolding run c by (simp add: cfg_w5x3_def)
qed

text \<open>
  C10, as the code has it. The buffer \<^verbatim>\<open>generate_chunk\<close> returns has 9 bytes per value,
  so its length is \<open>(end - start) * W\<close> for \<open>W = 9\<close> only. For \<open>W = 9\<close>, every \<open>N > 0\<close>,
  \<open>C > 0\<close> and every chunk index \<open>i\<close>, the write of the \<open>i\<close>-th result, the byte range
  \<open>[i * C * W, i * C * W + L)\<close> with \<open>L = (end\<^sub>i - start\<^sub>i) * W\<close>, lies within the
  preallocated \<open>N * W\<close> bytes, also for the final, shorter chunk, and no slice assignment
  raises \<^verbatim>\<open>IndexError\<close>.
\<close>

theorem writes_in_bounds:
  assumes "ENTRY_LENGTH cfg = 9" and "0 < TOTAL_ENTRIES cfg" and "0 < CHUNK_SIZE cfg"
  shows "fst (job_loop_run cfg e) \<noteq> Some IndexError
    \<and> (\<forall>i < length (written (snd (job_loop_run cfg e))).
          fst (written (snd (job_loop_run cfg e)) ! i) = i * CHUNK_SIZE cfg * ENTRY_LENGTH cfg
          \<and> snd (written (snd (job_loop_run cfg e)) ! i)
              = (snd (chunks cfg ! i) - fst (chunks cfg ! i)) * ENTRY_LENGTH cfg
          \<and> i * CHUNK_SIZE cfg * ENTRY_LENGTH cfg
              + (snd (chunks cfg ! i) - fst (chunks cfg ! i)) * ENTRY_LENGTH cfg
            \<le> TOTAL_ENTRIES cfg * ENTRY_LENGTH cfg)"
proof -
  let ?ws = "written (snd (job_loop_run cfg e))"
  note lw = loop_writes [OF assms, where e = e]
  have "fst (?ws ! i) = i * CHUNK_SIZE cfg * ENTRY_LENGTH cfg
      \<and> snd (?ws ! i) = (snd (chunks cfg ! i) - fst (chunks cfg ! i)) * ENTRY_LENGTH cfg
      \<and> i * CHUNK_SIZE cfg * ENTRY_LENGTH cfg
          + (snd (chunks cfg ! i) - fst (chunks cfg ! i)) * ENTRY_LENGTH cfg
        \<le> TOTAL_ENTRIES cfg * ENTRY_LENGTH cfg" if i: "i < length ?ws" for i
  proof -
    have il: "i < length (chunks cfg)" using i lw(1) by simp
    have c: "chunks cfg ! i
        = (i * CHUNK_SIZE cfg, min ((i + 1) * CHUNK_SIZE cfg) (TOTAL_ENTRIES cfg))"
      using assms(3) il by (rule chunk_nth)
    have "i < (TOTAL_ENTRIES cfg + CHUNK_SIZE cfg - 1) div CHUNK_SIZE cfg"
      using il by (simp add: chunks_closed [OF assms(3)])
    then have lt: "i * CHUNK_SIZE cfg < TOTAL_ENTRIES cfg" using assms(2) by (rule below_ceil)
    define s where "s = i * CHUNK_SIZE cfg"
    define t where "t = min ((i + 1) * CHUNK_SIZE cfg) (TOTAL_ENTRIES cfg)"
    have st: "s \<le> t" "t \<le> TOTAL_ENTRIES cfg" using lt by (simp_all add: s_def t_def)
    then have "s * 9 + (t - s) * 9 = t * 9" by (simp add: add_mult_distrib [symmetric])
    then have "s * 9 + (t - s) * 9 \<le> TOTAL_ENTRIES cfg * 9" using st(2) by simp
    then show ?thesis using lw(3) [OF i] by (simp add: c assms(1) s_def t_def)
  qed
  then show ?thesis using lw(4) by blast
qed

theorem writes_in_bounds_witness:
  "ENTRY_LENGTH cfg20 = 9 \<and> 0 < TOTAL_ENTRIES cfg20 \<and> 0 < CHUNK_SIZE cfg20
   \<and> length (written (snd (job_loop_run cfg20 quiet))) = 4
   \<and> fst (written (snd (job_loop_run cfg20 quiet)) ! 0)
       + snd (written (snd (job_loop_run cfg20 quiet)) ! 0) \<le> 180
   \<and> fst (written (snd (job_loop_run cfg20 quiet)) ! 3) = 162
   \<and> fst (written (snd (job_loop_run cfg20 quiet)) ! 3)
       + snd (written (snd (job_loop_run cfg20 quiet)) ! 3) \<le> 180"
proof -
  have h: "ENTRY_LENGTH cfg20 = 9" "0 < TOTAL_ENTRIES cfg20" "0 < CHUNK_SIZE cfg20"
    by (simp_all add: cfg20_def)
  have c: "length (chunks cfg20) = 4" by code_simp
  have ok: "fst (job_loop_run cfg20 quiet) = None"
    using coordinator_run [OF h(1,3,2) job_loop_run_collapse, of quiet]
    by (simp add: quiet_def)
  have len: "length (written (snd (job_loop_run cfg20 quiet))) = 4"
    using loop_writes(2) [OF h ok] by (simp add: c)
  have each: "\<forall>i < 4. fst (written (snd (job_loop_run cfg20 quiet)) ! i)
        = i * CHUNK_SIZE cfg20 * ENTRY_LENGTH cfg20
      \<and> fst (written (snd (job_loop_run cfg20 quiet)) ! i)
          + snd (written (snd (job_loop_run cfg20 quiet)) ! i)
        \<le> TOTAL_ENTRIES cfg20 * ENTRY_LENGTH cfg20"
    using writes_in_bounds [OF h, of quiet] unfolding len by simp
  have "fst (written (snd (job_loop_run cfg20 quiet)) ! 0)
        + snd (written (snd (job_loop_run cfg20 quiet)) ! 0) \<le> 180"
      "fst (written (snd (job_loop_run cfg20 quiet)) ! 3) = 162"
      "fst (written (snd (job_loop_run cfg20 quiet)) ! 3)
        + snd (written (snd (job_loop_run cfg20 quiet)) ! 3) \<le> 180"
    using each [rule_format, of 0] each [rule_format, of 3] by (simp_all add: cfg20_def)
  then show ?thesis using h len by blast
qed

text \<open>
  C10 as written ranges over every \<open>W > 0\<close>. With \<open>N = 1\<close>, \<open>W = 5\<close>, \<open>C = 1\<close> the
  file has 5 bytes, the only chunk returns a buffer of 9 bytes, and the slice assignment
  at offset 0 raises \<^verbatim>\<open>IndexError\<close>.
\<close>

theorem writes_in_bounds_counterexample:
  "chunks cfg_w5 = [(0, 1)]
   \<and> fst (generate_chunk flag_unset (worker_fault quiet 0) (0, 1)) = Some ''00000000\<newline>''
   \<and> \<not> (0 * CHUNK_SIZE cfg_w5 * ENTRY_LENGTH cfg_w5 + length ''00000000\<newline>''
          \<le> TOTAL_ENTRIES cfg_w5 * ENTRY_LENGTH cfg_w5)
   \<and> fst (job_loop_run cfg_w5 quiet) = Some IndexError"
proof -
  have c: "chunks cfg_w5 = [(0, 1)]"
    by (simp add: chunks_def cfg_w5_def range_step.simps)
  have "fst (generate_chunk flag_unset (worker_fault quiet 0) (0, 1))
      = Some (format_batch (map word_of_nat [0..<1]))"
    by (intro generate_chunk_runs) (simp_all add: quiet_def flag_unset_def)
  then have g: "fst (generate_chunk flag_unset (worker_fault quiet 0) (0, 1))
      = Some ''00000000\<newline>''"
    by (simp add: record_zero)
  have "job_loop_run cfg_w5 quiet =
      (case mm_assign (replicate (TOTAL_ENTRIES cfg_w5 * ENTRY_LENGTH cfg_w5) (CHR 0x00)) 0
              (format_batch (map word_of_nat [0..<1])) of
         Inl x \<Rightarrow> (Some x, \<lparr>mm = replicate (TOTAL_ENTRIES cfg_w5 * ENTRY_LENGTH cfg_w5) (CHR 0x00),
                             shutdown_flag = False, written = []\<rparr>)
       | Inr m \<Rightarrow> (None, \<lparr>mm = m, shutdown_flag = False, written = [(0, 9 * 1)]\<rparr>))"
    using c by (intro loop_one_chunk) (simp_all add: quiet_def)
  then have "fst (job_loop_run cfg_w5 quiet) = Some IndexError"
    by (simp add: record_zero cfg_w5_def mm_assign_def replicate_numeral)
  then show ?thesis using g c by (simp add: cfg_w5_def)
qed


subsection \<open>C6: the record count and the digit width\<close>







subsection \<open>C5: a failed space check\<close>

text \<open>The value shown is the nearest tenth of a GB: it differs from the amount by at most
  0.05 GB.\<close>

lemma gb_tenths_nearest:
  "2 * (10 * n) \<le> (2 * gb_tenths n + 1) * 1073741824
   \<and> 2 * gb_tenths n * 1073741824 \<le> 2 * (10 * n) + 1073741824"
proof -
  define q where "q = (n * 10) div 1073741824"
  define r where "r = (n * 10) mod 1073741824"
  have n: "10 * n = q * 1073741824 + r"
    unfolding q_def r_def by (metis div_mult_mod_eq mult.commute)
  have r: "r < 1073741824" by (simp add: r_def)
  have t: "gb_tenths n = (if 2 * r < 1073741824 then q
      else if 1073741824 < 2 * r then q + 1 else if even q then q else q + 1)"
    by (simp add: gb_tenths_def Let_def q_def r_def)
  show ?thesis unfolding t n using r by (simp add: algebra_simps)
qed

lemma format_gb_values:
  "format_gb 0 = ''0.0''" "format_gb 5 = ''0.0''" "format_gb 9 = ''0.0''"
  "format_gb 180 = ''0.0''" "format_gb 500000000 = ''0.5''" "format_gb 900000000 = ''0.8''"
  by (simp_all add: format_gb_def gb_tenths_def Let_def dec_str.simps digit_char_simps)

text \<open>
  C5, as the code has it. When the free space reported for the output directory is less
  than the required \<open>N * W\<close> bytes (and the directory exists or can be created),
  \<^verbatim>\<open>check_disk_space\<close> raises \<^verbatim>\<open>IOError\<close>. Its message names the required and the free
  space in GB with one decimal, each the nearest tenth of a GB of the amount; the text is
  stated for sizes below \<open>2\<^sup>5\<^sup>3\<close> bytes, where the division by \<open>2\<^sup>3\<^sup>0\<close> is exact. The
  error is raised before the temporary file is created: the run creates no file and
  renames none, the output path is as it was, and where no temporary file existed before
  the run none exists after it. The job does not return \<open>True\<close> and the script exits
  with status 1.
\<close>

theorem insufficient_space_error:
  assumes "disk_free e < TOTAL_ENTRIES cfg * ENTRY_LENGTH cfg"
    and "dir_exists w \<or> \<not> mkdir_fails e"
  shows "(\<exists>msg. fst (check_disk_space e (TOTAL_ENTRIES cfg * ENTRY_LENGTH cfg) w)
            = Some (IOError msg))
    \<and> (TOTAL_ENTRIES cfg * ENTRY_LENGTH cfg < 2 ^ 53 \<longrightarrow>
          fst (check_disk_space e (TOTAL_ENTRIES cfg * ENTRY_LENGTH cfg) w)
            = Some (IOError (''Insufficient space. Need ''
                @ dec_str (gb_tenths (TOTAL_ENTRIES cfg * ENTRY_LENGTH cfg) div 10) @ ''.''
                @ dec_str (gb_tenths (TOTAL_ENTRIES cfg * ENTRY_LENGTH cfg) mod 10)
                @ ''GB, have ''
                @ dec_str (gb_tenths (disk_free e) div 10) @ ''.''
                @ dec_str (gb_tenths (disk_free e) mod 10) @ ''GB'')))
    \<and> 2 * (10 * (TOTAL_ENTRIES cfg * ENTRY_LENGTH cfg))
          \<le> (2 * gb_tenths (TOTAL_ENTRIES cfg * ENTRY_LENGTH cfg) + 1) * 1073741824
    \<and> 2 * gb_tenths (TOTAL_ENTRIES cfg * ENTRY_LENGTH cfg) * 1073741824
          \<le> 2 * (10 * (TOTAL_ENTRIES cfg * ENTRY_LENGTH cfg)) + 1073741824
    \<and> 2 * (10 * disk_free e) \<le> (2 * gb_tenths (disk_free e) + 1) * 1073741824
    \<and> 2 * gb_tenths (disk_free e) * 1073741824 \<le> 2 * (10 * disk_free e) + 1073741824
    \<and> (\<exists>evs. trace (snd (generate_full_8digit_combinations cfg e w)) = trace w @ evs
          \<and> (\<forall>n. Create n \<notin> set evs) \<and> Rename \<notin> set evs)
    \<and> (temp_file w = None \<longrightarrow>
          temp_file (snd (generate_full_8digit_combinations cfg e w)) = None)
    \<and> output_file (snd (generate_full_8digit_combinations cfg e w)) = output_file w
    \<and> fst (generate_full_8digit_combinations cfg e w) \<noteq> Inr True
    \<and> fst (main cfg e w) = 1"
proof -
  let ?size = "TOTAL_ENTRIES cfg * ENTRY_LENGTH cfg"
  let ?chk = "check_disk_space e ?size w"
  let ?job = "generate_full_8digit_combinations cfg e w"
  have err: "fst ?chk = Some (IOError (error_msg ?size (disk_free e)))"
    using assms(2,1) by (rule check_disk_space_insufficient)
  then have a: "\<exists>msg. fst ?chk = Some (IOError msg)" by blast
  have b: "fst ?chk = Some (IOError (''Insufficient space. Need ''
      @ dec_str (gb_tenths ?size div 10) @ ''.'' @ dec_str (gb_tenths ?size mod 10)
      @ ''GB, have ''
      @ dec_str (gb_tenths (disk_free e) div 10) @ ''.''
      @ dec_str (gb_tenths (disk_free e) mod 10) @ ''GB''))"
    using err by (simp add: error_msg_def format_gb_def)
  note c = gb_tenths_nearest [of ?size] gb_tenths_nearest [of "disk_free e"]
  have job: "?job = (Inl UnboundLocalError, snd ?chk)"
    using err by (intro job_failed_check) simp
  have "?chk = (fst ?chk, snd ?chk)" by simp
  then have frame: "temp_file (snd ?chk) = temp_file w \<and> output_file (snd ?chk) = output_file w
      \<and> trace (snd ?chk) = trace w"
    by (rule check_disk_space_frame)
  have d: "\<exists>evs. trace (snd ?job) = trace w @ evs \<and> (\<forall>n. Create n \<notin> set evs) \<and> Rename \<notin> set evs"
    using frame by (intro exI [of _ "[]"]) (simp add: job)
  have e: "temp_file w = None \<longrightarrow> temp_file (snd ?job) = None"
    and f: "output_file (snd ?job) = output_file w"
    and g: "fst ?job \<noteq> Inr True"
    using frame by (simp_all add: job)
  have h: "fst (main cfg e w) = 1" using g by (simp add: main_exit_code)
  show ?thesis using a b c d e f g h by blast
qed

theorem insufficient_space_error_witness:
  "disk_free half_full < TOTAL_ENTRIES shipped * ENTRY_LENGTH shipped
   \<and> (dir_exists fresh \<or> \<not> mkdir_fails half_full)
   \<and> fst (check_disk_space half_full (TOTAL_ENTRIES shipped * ENTRY_LENGTH shipped) fresh)
       = Some (IOError ''Insufficient space. Need 0.8GB, have 0.5GB'')
   \<and> temp_file (snd (generate_full_8digit_combinations shipped half_full fresh)) = None
   \<and> output_file (snd (generate_full_8digit_combinations shipped half_full fresh)) = None
   \<and> fst (main shipped half_full fresh) = 1"
proof -
  have h: "disk_free half_full < TOTAL_ENTRIES shipped * ENTRY_LENGTH shipped"
    "dir_exists fresh \<or> \<not> mkdir_fails half_full"
    by (simp_all add: half_full_def quiet_def shipped_def fresh_def)
  have size: "TOTAL_ENTRIES shipped * ENTRY_LENGTH shipped = 900000000"
    "disk_free half_full = 500000000"
    by (simp_all add: shipped_def half_full_def)
  have t: "gb_tenths 900000000 = 8" "gb_tenths 500000000 = 5"
    by (simp_all add: gb_tenths_def Let_def)
  have d: "dec_str 0 = ''0''" "dec_str 5 = ''5''" "dec_str 8 = ''8''"
    by (simp_all add: dec_str.simps digit_char_simps)
  note inst = insufficient_space_error [OF h]
  have msg: "fst (check_disk_space half_full (TOTAL_ENTRIES shipped * ENTRY_LENGTH shipped) fresh)
      = Some (IOError ''Insufficient space. Need 0.8GB, have 0.5GB'')"
    using inst unfolding size t by (simp add: d)
  have rest: "temp_file (snd (generate_full_8digit_combinations shipped half_full fresh)) = None"
    "output_file (snd (generate_full_8digit_combinations shipped half_full fresh)) = None"
    "fst (main shipped half_full fresh) = 1"
    using inst by (simp_all add: fresh_def)
  show ?thesis using h msg rest by blast
qed

text \<open>
  C5 as written has the error carry the required and the available amount, and has no
  temporary file on disk after the run. With 180 bytes required and none free, and with 9
  bytes required and 5 free, the error is the same, and its text shows the same figure for
  what is needed and what is there. And a temporary file that an earlier run left behind
  is still there after the run.
\<close>

theorem insufficient_space_error_counterexample:
  "TOTAL_ENTRIES cfg20 * ENTRY_LENGTH cfg20 = 180 \<and> disk_free no_space = 0
   \<and> TOTAL_ENTRIES cfg_one * ENTRY_LENGTH cfg_one = 9 \<and> disk_free tight = 5
   \<and> fst (check_disk_space no_space (TOTAL_ENTRIES cfg20 * ENTRY_LENGTH cfg20) fresh)
       = Some (IOError ''Insufficient space. Need 0.0GB, have 0.0GB'')
   \<and> fst (check_disk_space tight (TOTAL_ENTRIES cfg_one * ENTRY_LENGTH cfg_one) fresh)
       = Some (IOError ''Insufficient space. Need 0.0GB, have 0.0GB'')
   \<and> temp_file leftover = Some ''00000000''
   \<and> temp_file (snd (generate_full_8digit_combinations cfg20 no_space leftover))
       = Some ''00000000''"
proof -
  have v: "TOTAL_ENTRIES cfg20 * ENTRY_LENGTH cfg20 = 180" "disk_free no_space = 0"
    "TOTAL_ENTRIES cfg_one * ENTRY_LENGTH cfg_one = 9" "disk_free tight = 5"
    by (simp_all add: cfg20_def cfg_one_def no_space_def tight_def)
  have dir: "dir_exists fresh" "dir_exists leftover" by (simp_all add: fresh_def leftover_def)
  have m1: "fst (check_disk_space no_space (TOTAL_ENTRIES cfg20 * ENTRY_LENGTH cfg20) fresh)
      = Some (IOError ''Insufficient space. Need 0.0GB, have 0.0GB'')"
    using check_disk_space_insufficient [of fresh no_space "TOTAL_ENTRIES cfg20 * ENTRY_LENGTH cfg20"]
    unfolding v by (simp add: dir error_msg_def format_gb_values)
  have m2: "fst (check_disk_space tight (TOTAL_ENTRIES cfg_one * ENTRY_LENGTH cfg_one) fresh)
      = Some (IOError ''Insufficient space. Need 0.0GB, have 0.0GB'')"
    using check_disk_space_insufficient [of fresh tight "TOTAL_ENTRIES cfg_one * ENTRY_LENGTH cfg_one"]
    unfolding v by (simp add: dir error_msg_def format_gb_values)
  have "fst (check_disk_space no_space (TOTAL_ENTRIES cfg20 * ENTRY_LENGTH cfg20) leftover) \<noteq> None"
    using check_disk_space_insufficient [of leftover no_space "TOTAL_ENTRIES cfg20 * ENTRY_LENGTH cfg20"]
    unfolding v by (simp add: dir)
  then have job: "generate_full_8digit_combinations cfg20 no_space leftover
      = (Inl UnboundLocalError,
         snd (check_disk_space no_space (TOTAL_ENTRIES cfg20 * ENTRY_LENGTH cfg20) leftover))"
    by (rule job_failed_check)
  have "temp_file (snd (check_disk_space no_space (TOTAL_ENTRIES cfg20 * ENTRY_LENGTH cfg20) leftover))
      = temp_file leftover"
    using check_disk_space_frame [of no_space "TOTAL_ENTRIES cfg20 * ENTRY_LENGTH cfg20" leftover]
    by (metis prod.collapse)
  then have t: "temp_file (snd (generate_full_8digit_combinations cfg20 no_space leftover))
      = Some ''00000000''"
    unfolding job by (simp add: leftover_def fresh_def)
  have l: "temp_file leftover = Some ''00000000''" by (simp add: leftover_def)
  show ?thesis using v m1 m2 l t by blast
qed

subsection \<open>C7: the temporary file and the output path\<close>

lemma count_list_writes [simp]:
  "count_list (map (\<lambda>(a, l). Write a l) ws) Delete = 0"
  "count_list (map (\<lambda>(a, l). Write a l) ws) Rename = 0"
  by (induction ws) auto

lemma chunks_cfg_one: "chunks cfg_one = [(0, 1)]"
  by (simp add: chunks_def cfg_one_def range_step.simps)

lemma check_passes_cfg_one:
  "disk_free e = disk_free quiet \<Longrightarrow>
   check_disk_space e (TOTAL_ENTRIES cfg_one * ENTRY_LENGTH cfg_one) stale = (None, stale)"
  "disk_free e = disk_free quiet \<Longrightarrow>
   check_disk_space e (TOTAL_ENTRIES cfg_one * ENTRY_LENGTH cfg_one) fresh = (None, fresh)"
  by (simp_all add: check_disk_space_def ensure_directory_exists_def quiet_def cfg_one_def
      stale_def fresh_def)

lemma loop_quiet_cfg_one:
  "job_loop_run cfg_one quiet
    = (None, \<lparr>mm = ''00000000\<newline>'', shutdown_flag = False, written = [(0, 9)]\<rparr>)"
proof -
  have "job_loop_run cfg_one quiet =
      (case mm_assign (replicate (TOTAL_ENTRIES cfg_one * ENTRY_LENGTH cfg_one) (CHR 0x00)) 0
              (format_batch (map word_of_nat [0..<1])) of
         Inl x \<Rightarrow> (Some x, \<lparr>mm = replicate (TOTAL_ENTRIES cfg_one * ENTRY_LENGTH cfg_one) (CHR 0x00),
                             shutdown_flag = False, written = []\<rparr>)
       | Inr m \<Rightarrow> (None, \<lparr>mm = m, shutdown_flag = False, written = [(0, 9 * 1)]\<rparr>))"
    using chunks_cfg_one by (intro loop_one_chunk) (simp_all add: quiet_def)
  then show ?thesis
    by (simp add: record_zero cfg_one_def mm_assign_def replicate_numeral)
qed

text \<open>
  After a passed space check the \<^verbatim>\<open>finally\<close> block cleans up. \<open>evs\<close> are the file
  operations of the run: exactly one of them is a deletion or a rename, and it is the
  last one; a run that does not return \<open>True\<close> ends with the deletion and leaves the
  output path untouched, a run that returns \<open>True\<close> ends with the rename and deletes
  nothing; the temporary file is gone in both cases.
\<close>

lemma cleanup_after_passed_check:
  assumes "fst (check_disk_space e (TOTAL_ENTRIES cfg * ENTRY_LENGTH cfg) w) = None"
  shows "\<exists>evs. trace (snd (generate_full_8digit_combinations cfg e w)) = trace w @ evs
     \<and> evs \<noteq> []
     \<and> count_list evs Delete + count_list evs Rename = 1
     \<and> (fst (generate_full_8digit_combinations cfg e w) \<noteq> Inr True \<longrightarrow>
          fst (generate_full_8digit_combinations cfg e w) = Inr False
          \<and> last evs = Delete
          \<and> output_file (snd (generate_full_8digit_combinations cfg e w)) = output_file w)
     \<and> (fst (generate_full_8digit_combinations cfg e w) = Inr True \<longrightarrow> last evs = Rename)
     \<and> temp_file (snd (generate_full_8digit_combinations cfg e w)) = None"
proof -
  let ?job = "generate_full_8digit_combinations cfg e w"
  let ?size = "TOTAL_ENTRIES cfg * ENTRY_LENGTH cfg"
  let ?chk = "check_disk_space e ?size w"
  have frame: "temp_file (snd ?chk) = temp_file w \<and> output_file (snd ?chk) = output_file w
      \<and> trace (snd ?chk) = trace w"
    by (rule check_disk_space_frame [of e ?size w "fst ?chk"]) simp
  have chk: "?chk = (None, snd ?chk)" using assms by (metis prod.collapse)
  show ?thesis
  proof (cases "?size = 0 \<or> CHUNK_SIZE cfg = 0")
    case True
    note d = job_degenerate [OF chk True]
    have "trace (snd ?job) = trace w @ [Create ?size, Delete]" using d(4) frame by simp
    moreover have "output_file (snd ?job) = output_file w" using d(3) frame by simp
    ultimately show ?thesis
      using d(1,2) by (intro exI [of _ "[Create ?size, Delete]"]) simp
  next
    case False
    then have nz: "?size \<noteq> 0" "CHUNK_SIZE cfg \<noteq> 0" by simp_all
    note l = job_loop [OF chk nz job_loop_run_collapse]
    let ?r = "fst (job_loop_run cfg e)"
    let ?ws = "map (\<lambda>(a, l). Write a l) (written (snd (job_loop_run cfg e)))"
    let ?evs = "Create ?size # ?ws @ [if ?r = None then Rename else Delete]"
    have tr: "trace (snd ?job) = trace w @ ?evs" using l(4) frame by simp
    have out: "output_file (snd ?job) = output_file w" if "?r \<noteq> None"
      using l(3) frame that by simp
    have ne: "?evs \<noteq> []" by simp
    have one: "count_list ?evs Delete + count_list ?evs Rename = 1" by auto
    have a: "fst ?job \<noteq> Inr True \<longrightarrow>
        fst ?job = Inr False \<and> last ?evs = Delete \<and> output_file (snd ?job) = output_file w"
      using l(1) out by auto
    have b: "fst ?job = Inr True \<longrightarrow> last ?evs = Rename" using l(1) by auto
    have c: "temp_file (snd ?job) = None" by (rule l(2))
    show ?thesis using tr ne one a b c by (intro exI [of _ ?evs] conjI)
  qed
qed

text \<open>
  C7 at a run whose space check fails. The shipped constants need 900 MB, the disk has
  500 MB free, and the temporary file of an earlier run is in place. The check raises;
  \<^verbatim>\<open>temp_path\<close> is assigned only after the check, so the \<^verbatim>\<open>finally\<close> block, which passes
  it to \<^verbatim>\<open>cleanup_resources\<close>, raises \<^verbatim>\<open>UnboundLocalError\<close> in place of the
  \<^verbatim>\<open>return False\<close>. The cleanup never runs: the run performs no file operation, neither a
  deletion nor a rename, and the temporary file is still there. On the same disk state a
  run that fails after the check (here by an interruption) does delete the file.
\<close>

theorem failed_check_skips_cleanup:
  "disk_free half_full < TOTAL_ENTRIES shipped * ENTRY_LENGTH shipped
   \<and> temp_file leftover = Some ''00000000''
   \<and> generate_full_8digit_combinations shipped half_full leftover
       = (Inl UnboundLocalError, leftover)
   \<and> temp_file (snd (generate_full_8digit_combinations shipped half_full leftover))
       = Some ''00000000''
   \<and> trace (snd (generate_full_8digit_combinations shipped half_full leftover)) = []
   \<and> fst (main shipped half_full leftover) = 1
   \<and> fst (generate_full_8digit_combinations cfg_one interrupted leftover) = Inr False
   \<and> trace (snd (generate_full_8digit_combinations cfg_one interrupted leftover))
       = [Create 9, Delete]
   \<and> temp_file (snd (generate_full_8digit_combinations cfg_one interrupted leftover)) = None"
proof -
  have less: "disk_free half_full < TOTAL_ENTRIES shipped * ENTRY_LENGTH shipped"
    by (simp add: half_full_def shipped_def)
  have l: "temp_file leftover = Some ''00000000''" "trace leftover = []"
    by (simp_all add: leftover_def fresh_def)
  have chk: "check_disk_space half_full (TOTAL_ENTRIES shipped * ENTRY_LENGTH shipped) leftover
      = (Some (IOError (error_msg (TOTAL_ENTRIES shipped * ENTRY_LENGTH shipped)
            (disk_free half_full))), leftover)"
    using less
    by (simp add: check_disk_space_def ensure_directory_exists_def leftover_def fresh_def)
  then have job: "generate_full_8digit_combinations shipped half_full leftover
      = (Inl UnboundLocalError, leftover)"
    using job_failed_check [of half_full shipped leftover] by simp
  have exit: "fst (main shipped half_full leftover) = 1"
    by (simp add: main_exit_code job)
  have nz: "TOTAL_ENTRIES cfg_one * ENTRY_LENGTH cfg_one \<noteq> 0" "CHUNK_SIZE cfg_one \<noteq> 0"
    by (simp_all add: cfg_one_def)
  have chk_i: "check_disk_space interrupted (TOTAL_ENTRIES cfg_one * ENTRY_LENGTH cfg_one) leftover
      = (None, leftover)"
    by (simp add: check_disk_space_def ensure_directory_exists_def interrupted_def quiet_def
        cfg_one_def leftover_def fresh_def)
  have li: "fst (job_loop_run cfg_one interrupted) = Some KeyboardInterrupt"
      "written (snd (job_loop_run cfg_one interrupted)) = []"
    using chunks_cfg_one by (simp_all add: loop_interrupted interrupted_def)
  have f1: "fst (generate_full_8digit_combinations cfg_one interrupted leftover) = Inr False"
    using job_loop(1) [OF chk_i nz job_loop_run_collapse] li by simp
  have t1: "trace (snd (generate_full_8digit_combinations cfg_one interrupted leftover))
      = [Create 9, Delete]"
    using job_loop(4) [OF chk_i nz job_loop_run_collapse] li
    by (simp add: l cfg_one_def)
  have d1: "temp_file (snd (generate_full_8digit_combinations cfg_one interrupted leftover)) = None"
    using job_loop(2) [OF chk_i nz job_loop_run_collapse] .
  show ?thesis using less l job exit f1 t1 d1 by simp
qed

subsection \<open>C8: what the launcher learns\<close>

lemma coordinator_exceptions:
  "fst (coordinator cfg e es st) \<in> {None, Some KeyboardInterrupt,
      Some (RuntimeError ''Chunk generation failed''), Some IndexError}"
proof (induction es arbitrary: st)
  case Nil
  then show ?case by simp
next
  case (Cons x es)
  obtain i c where x: "x = (i, c)" by (cases x)
  show ?case
  proof (cases "signal_at e i")
    case True
    then show ?thesis by (simp add: x Let_def)
  next
    case nosig: False
    show ?thesis
    proof (cases "fst (generate_chunk (\<lambda>r. shutdown_flag st) (worker_fault e i) c)")
      case None
      then show ?thesis using nosig by (simp add: x Let_def)
    next
      case (Some data)
      show ?thesis
      proof (cases "mm_assign (mm st) (i * CHUNK_SIZE cfg * ENTRY_LENGTH cfg) data")
        case (Inl err)
        then have "err = IndexError" by (rule mm_assign_error)
        then show ?thesis using nosig Some Inl by (simp add: x Let_def)
      next
        case (Inr m)
        then show ?thesis using nosig Some Cons.IH by (simp add: x Let_def)
      qed
    qed
  qed
qed

text \<open>
  C8, as the code has it. The script exits with status 0 exactly when the job returned
  \<open>True\<close> and with status 1 in every other case. After a passed space check the job
  returns a bare boolean: \<open>True\<close> when the loop ran to its end, \<open>False\<close> whenever an
  exception left the loop. The exceptions of the loop are the interruption, the chunk
  failure with its fixed message and the slice error; none of them carries a chunk
  index or a cause, and all of them give the same \<open>False\<close>.
\<close>

theorem outcome_is_one_boolean:
  "(fst (main cfg e w) = 0 \<longleftrightarrow> fst (generate_full_8digit_combinations cfg e w) = Inr True)
   \<and> (fst (main cfg e w) = 1 \<longleftrightarrow> fst (generate_full_8digit_combinations cfg e w) \<noteq> Inr True)
   \<and> (fst (check_disk_space e (TOTAL_ENTRIES cfg * ENTRY_LENGTH cfg) w) = None \<longrightarrow>
        (fst (generate_full_8digit_combinations cfg e w) = Inr True
          \<or> fst (generate_full_8digit_combinations cfg e w) = Inr False)
        \<and> (TOTAL_ENTRIES cfg * ENTRY_LENGTH cfg \<noteq> 0 \<and> CHUNK_SIZE cfg \<noteq> 0 \<longrightarrow>
             (fst (generate_full_8digit_combinations cfg e w) = Inr True
               \<longleftrightarrow> fst (job_loop_run cfg e) = None)))
   \<and> fst (job_loop_run cfg e) \<in> {None, Some KeyboardInterrupt,
        Some (RuntimeError ''Chunk generation failed''), Some IndexError}"
proof -
  let ?job = "generate_full_8digit_combinations cfg e w"
  let ?size = "TOTAL_ENTRIES cfg * ENTRY_LENGTH cfg"
  have a: "fst (main cfg e w) = 0 \<longleftrightarrow> fst ?job = Inr True"
    and b: "fst (main cfg e w) = 1 \<longleftrightarrow> fst ?job \<noteq> Inr True"
    by (simp_all add: main_exit_code)
  have c: "(fst ?job = Inr True \<or> fst ?job = Inr False)
      \<and> (?size \<noteq> 0 \<and> CHUNK_SIZE cfg \<noteq> 0 \<longrightarrow> (fst ?job = Inr True \<longleftrightarrow> fst (job_loop_run cfg e) = None))"
    if pass: "fst (check_disk_space e ?size w) = None"
  proof -
    have chk: "check_disk_space e ?size w = (None, snd (check_disk_space e ?size w))"
      using pass by (metis prod.collapse)
    show ?thesis
    proof (cases "?size = 0 \<or> CHUNK_SIZE cfg = 0")
      case True
      then show ?thesis using job_degenerate(1) [OF chk True] by auto
    next
      case False
      then have nz: "?size \<noteq> 0" "CHUNK_SIZE cfg \<noteq> 0" by simp_all
      show ?thesis using job_loop(1) [OF chk nz job_loop_run_collapse] by auto
    qed
  qed
  have d: "fst (job_loop_run cfg e) \<in> {None, Some KeyboardInterrupt,
      Some (RuntimeError ''Chunk generation failed''), Some IndexError}"
    unfolding job_loop_run_def by (rule coordinator_exceptions)
  show ?thesis using a b c d by blast
qed

theorem outcome_is_one_boolean_witness:
  "fst (check_disk_space interrupted (TOTAL_ENTRIES cfg_one * ENTRY_LENGTH cfg_one) fresh) = None
   \<and> TOTAL_ENTRIES cfg_one * ENTRY_LENGTH cfg_one \<noteq> 0 \<and> CHUNK_SIZE cfg_one \<noteq> 0
   \<and> fst (job_loop_run cfg_one interrupted) = Some KeyboardInterrupt
   \<and> fst (generate_full_8digit_combinations cfg_one interrupted fresh) = Inr False
   \<and> fst (main cfg_one interrupted fresh) = 1"
proof -
  have chk: "fst (check_disk_space interrupted (TOTAL_ENTRIES cfg_one * ENTRY_LENGTH cfg_one) fresh)
      = None"
    using check_passes_cfg_one(2) [of interrupted] by (simp add: interrupted_def)
  have nz: "TOTAL_ENTRIES cfg_one * ENTRY_LENGTH cfg_one \<noteq> 0" "CHUNK_SIZE cfg_one \<noteq> 0"
    by (simp_all add: cfg_one_def)
  have li: "fst (job_loop_run cfg_one interrupted) = Some KeyboardInterrupt"
    using chunks_cfg_one by (simp add: loop_interrupted interrupted_def)
  note inst = outcome_is_one_boolean [of cfg_one interrupted fresh]
  have "fst (generate_full_8digit_combinations cfg_one interrupted fresh) \<noteq> Inr True"
    using inst chk nz li by simp
  then have "fst (generate_full_8digit_combinations cfg_one interrupted fresh) = Inr False"
      "fst (main cfg_one interrupted fresh) = 1"
    using inst chk by blast+
  then show ?thesis using chk nz li by blast
qed

text \<open>
  C8 as written expects the three failures to reach the launcher as different outcomes. An
  interruption and a chunk fault both make the job return \<open>False\<close>, and together with a
  failed space check all three end in exit status 1.
\<close>

theorem outcome_is_one_boolean_counterexample:
  "fst (job_loop_run cfg_one interrupted) = Some KeyboardInterrupt
   \<and> fst (job_loop_run cfg_one faulty) = Some (RuntimeError ''Chunk generation failed'')
   \<and> fst (generate_full_8digit_combinations cfg_one interrupted fresh) = Inr False
   \<and> fst (generate_full_8digit_combinations cfg_one faulty fresh) = Inr False
   \<and> fst (check_disk_space no_space (TOTAL_ENTRIES cfg_one * ENTRY_LENGTH cfg_one) fresh)
       = Some (IOError ''Insufficient space. Need 0.0GB, have 0.0GB'')
   \<and> fst (main cfg_one interrupted fresh) = 1
   \<and> fst (main cfg_one faulty fresh) = 1
   \<and> fst (main cfg_one no_space fresh) = 1"
proof -
  have nz: "TOTAL_ENTRIES cfg_one * ENTRY_LENGTH cfg_one \<noteq> 0" "CHUNK_SIZE cfg_one \<noteq> 0"
    by (simp_all add: cfg_one_def)
  have chk_i: "check_disk_space interrupted (TOTAL_ENTRIES cfg_one * ENTRY_LENGTH cfg_one) fresh
      = (None, fresh)"
    by (intro check_passes_cfg_one) (simp add: interrupted_def)
  have chk_f: "check_disk_space faulty (TOTAL_ENTRIES cfg_one * ENTRY_LENGTH cfg_one) fresh
      = (None, fresh)"
    by (intro check_passes_cfg_one) (simp add: faulty_def)
  have li: "fst (job_loop_run cfg_one interrupted) = Some KeyboardInterrupt"
    using chunks_cfg_one by (simp add: loop_interrupted interrupted_def)
  have lf: "fst (job_loop_run cfg_one faulty) = Some (RuntimeError ''Chunk generation failed'')"
    using loop_faulty(1) [OF chunks_cfg_one, of faulty] by (simp add: faulty_def quiet_def)
  have ji: "fst (generate_full_8digit_combinations cfg_one interrupted fresh) = Inr False"
    using job_loop(1) [OF chk_i nz job_loop_run_collapse] li by simp
  have jf: "fst (generate_full_8digit_combinations cfg_one faulty fresh) = Inr False"
    using job_loop(1) [OF chk_f nz job_loop_run_collapse] lf by simp
  have cn: "fst (check_disk_space no_space (TOTAL_ENTRIES cfg_one * ENTRY_LENGTH cfg_one) fresh)
      = Some (IOError ''Insufficient space. Need 0.0GB, have 0.0GB'')"
    by (simp add: check_disk_space_def ensure_directory_exists_def no_space_def quiet_def
        cfg_one_def fresh_def error_msg_def format_gb_def gb_tenths_def dec_str.simps
        digit_char_simps)
  then have "generate_full_8digit_combinations cfg_one no_space fresh
      = (Inl UnboundLocalError,
         snd (check_disk_space no_space (TOTAL_ENTRIES cfg_one * ENTRY_LENGTH cfg_one) fresh))"
    by (intro job_failed_check) simp
  then have jn: "fst (generate_full_8digit_combinations cfg_one no_space fresh) \<noteq> Inr True"
    by simp
  show ?thesis using li lf ji jf cn jn by (simp add: main_exit_code)
qed

end
